theory Spec2Isabelle
  imports Complex_Main "HOL-Library.Word" "HOL-Library.Monad_Syntax" "HOL-Library.AList"
begin

unbundle bit_operations_syntax

section \<open>Data model of the path storage\<close>

text \<open>
  The embedding follows \<^verbatim>\<open>Nimbus/PathStorage.cpp\<close>. 32-bit unsigned values
  (transmitter and receiver ids, labels, materials, the per-link counters) are
  \<open>32 word\<close>, so that increment, decrement and multiplication wrap as in the source;
  \<open>size_t\<close> indices are \<open>nat\<close>. \<open>float\<close> and \<open>double\<close> values are read as the real
  numbers they denote (finite, not NaN): the aggregation only copies and compares them.
  An access outside a vector is undefined behaviour in the source and the value
  \<open>None\<close> in the model.
\<close>

type_synonym u32 = "32 word"

type_synonym hash = "64 word"

type_synonym vec3 = "real \<times> real \<times> real"

datatype PathType = LineOfSight | Specular | Diffraction | Scattering | RIS

datatype SionnaPathType = Sionna_Specular | Sionna_Diffracted | Sionna_Scattered | Sionna_RIS

fun GetSionnaPathType :: "PathType \<Rightarrow> SionnaPathType" where
  "GetSionnaPathType LineOfSight = Sionna_Specular"
| "GetSionnaPathType Specular = Sionna_Specular"
| "GetSionnaPathType Diffraction = Sionna_Diffracted"
| "GetSionnaPathType Scattering = Sionna_Scattered"
| "GetSionnaPathType RIS = Sionna_RIS"

record PathInfo =
  txID :: u32
  rxID :: u32
  pathType :: PathType
  numInteractions :: nat
  timeDelay :: real

text \<open>The value type of \<open>m_PathMap\<close>: the best time delay and the slot index.\<close>

record PathEntry =
  entry_timeDelay :: real
  entry_pathIndex :: u32

text \<open>One element of \<open>m_InteractionData\<close>: the four parallel vectors of one interaction slot.\<close>

record InteractionData =
  interactions :: "vec3 list"
  normals :: "vec3 list"
  labels :: "u32 list"
  materials :: "u32 list"

record PathStorage =
  m_MaxNumInteractions :: nat
  m_InteractionData :: "InteractionData list"
  m_Transmitters :: "vec3 list"
  m_Receivers :: "vec3 list"
  m_PathCounts :: "(SionnaPathType \<Rightarrow> u32) list"
  m_MaxLinkPaths :: "SionnaPathType \<Rightarrow> u32"
  m_PathMap :: "(hash \<times> PathEntry) list"
  m_TimeDelays :: "real list"
  m_TxIDs :: "u32 list"
  m_RxIDs :: "u32 list"
  m_PathTypes :: "PathType list"
  m_NumInteractions :: "nat list"

text \<open>
  \<open>CalculateHash\<close> and \<open>CombineHash\<close> are declared in a header that is not among the
  sources; they are parameters of the model. \<open>PathHashKey\<close> wraps the \<open>size_t\<close> digest,
  and two keys are equal when their digests are.
\<close>

record Hasher =
  CalculateHash :: "u32 \<Rightarrow> u32 \<Rightarrow> PathType \<Rightarrow> hash"
  CombineHash :: "hash \<Rightarrow> u32 \<Rightarrow> hash"

text \<open>The arguments of one \<open>AddPaths\<close> call.\<close>

record PathBatch =
  numPaths :: nat
  pathInfos :: "PathInfo list"
  in_interactions :: "vec3 list"
  in_normals :: "vec3 list"
  in_labels :: "u32 list"
  in_materials :: "u32 list"

section \<open>Vector accesses and counted loops\<close>

definition rd :: "'a list \<Rightarrow> nat \<Rightarrow> 'a option" where
  "rd xs i = (if i < length xs then Some (xs ! i) else None)"

definition wr :: "'a list \<Rightarrow> nat \<Rightarrow> 'a \<Rightarrow> 'a list option" where
  "wr xs i v = (if i < length xs then Some (xs[i := v]) else None)"

text \<open>\<open>for (i = a; i < b; ++i) body\<close> is \<open>for_each [a..<b] body\<close>; it stops at the first failure.\<close>

fun for_each :: "nat list \<Rightarrow> (nat \<Rightarrow> 's \<Rightarrow> 's option) \<Rightarrow> 's \<Rightarrow> 's option" where
  "for_each [] body s = Some s"
| "for_each (i # is) body s = (case body i s of None \<Rightarrow> None | Some s' \<Rightarrow> for_each is body s')"

section \<open>Construction and aggregation\<close>

definition empty_InteractionData :: InteractionData where
  "empty_InteractionData = \<lparr>interactions = [], normals = [], labels = [], materials = []\<rparr>"

definition PathStorage_ctor :: "nat \<Rightarrow> vec3 list \<Rightarrow> vec3 list \<Rightarrow> PathStorage" where
  "PathStorage_ctor maxNumInteractions txs rxs =
     \<lparr>m_MaxNumInteractions = maxNumInteractions,
      m_InteractionData = replicate maxNumInteractions empty_InteractionData,
      m_Transmitters = txs,
      m_Receivers = rxs,
      m_PathCounts = replicate (length txs + length rxs) (\<lambda>_. 0),
      m_MaxLinkPaths = (\<lambda>_. 0),
      m_PathMap = [],
      m_TimeDelays = [],
      m_TxIDs = [],
      m_RxIDs = [],
      m_PathTypes = [],
      m_NumInteractions = []\<rparr>"

text \<open>\<open>labels\<close> is the pointer \<open>&labels[dataIndex]\<close>: the vector and the offset into it.\<close>

definition GetPathHash :: "Hasher \<Rightarrow> PathInfo \<Rightarrow> u32 list \<Rightarrow> nat \<Rightarrow> hash option" where
  "GetPathHash H pathInfo lbls dataIndex =
     for_each [0..<numInteractions pathInfo]
       (\<lambda>i h. do { l \<leftarrow> rd lbls (dataIndex + i); Some (CombineHash H h l) })
       (CalculateHash H (txID pathInfo) (rxID pathInfo) (pathType pathInfo))"

text \<open>Lines 43 to 59: the new path is appended to every interaction slot.\<close>

definition append_slot :: "PathBatch \<Rightarrow> PathInfo \<Rightarrow> nat \<Rightarrow> nat \<Rightarrow>
    InteractionData list \<Rightarrow> InteractionData list option" where
  "append_slot b pathInfo dataIndex iaIndex d =
     (if iaIndex < numInteractions pathInfo then do {
        p \<leftarrow> rd (in_interactions b) (dataIndex + iaIndex);
        n \<leftarrow> rd (in_normals b) (dataIndex + iaIndex);
        l \<leftarrow> rd (in_labels b) (dataIndex + iaIndex);
        m \<leftarrow> rd (in_materials b) (dataIndex + iaIndex);
        e \<leftarrow> rd d iaIndex;
        wr d iaIndex \<lparr>interactions = interactions e @ [p], normals = normals e @ [n],
                      labels = labels e @ [l], materials = materials e @ [m]\<rparr>
      } else do {
        e \<leftarrow> rd d iaIndex;
        wr d iaIndex \<lparr>interactions = interactions e @ [(0, 0, 0)], normals = normals e @ [(0, 0, 0)],
                      labels = labels e @ [NOT 0], materials = materials e @ [NOT 0]\<rparr>
      })"

text \<open>Lines 71 to 77: the slots below the candidate's interaction count are overwritten.\<close>

definition overwrite_slot :: "PathBatch \<Rightarrow> nat \<Rightarrow> nat \<Rightarrow> nat \<Rightarrow>
    InteractionData list \<Rightarrow> InteractionData list option" where
  "overwrite_slot b dataIndex pathIdx iaIndex d = do {
     p \<leftarrow> rd (in_interactions b) (dataIndex + iaIndex);
     n \<leftarrow> rd (in_normals b) (dataIndex + iaIndex);
     l \<leftarrow> rd (in_labels b) (dataIndex + iaIndex);
     m \<leftarrow> rd (in_materials b) (dataIndex + iaIndex);
     e \<leftarrow> rd d iaIndex;
     ps \<leftarrow> wr (interactions e) pathIdx p;
     ns \<leftarrow> wr (normals e) pathIdx n;
     ls \<leftarrow> wr (labels e) pathIdx l;
     ms \<leftarrow> wr (materials e) pathIdx m;
     wr d iaIndex \<lparr>interactions = ps, normals = ns, labels = ls, materials = ms\<rparr>
   }"

text \<open>Lines 41 to 67: the key is new (\<open>emplaced\<close>); \<open>h\<close> is the key.\<close>

definition insert_path :: "PathBatch \<Rightarrow> PathInfo \<Rightarrow> nat \<Rightarrow> hash \<Rightarrow> PathStorage \<Rightarrow> PathStorage option" where
  "insert_path b pathInfo dataIndex h s = do {
     d \<leftarrow> for_each [0..<length (m_InteractionData s)]
            (append_slot b pathInfo dataIndex) (m_InteractionData s);
     let typeIndex = GetSionnaPathType (pathType pathInfo);
     let link = unat (rxID pathInfo) * length (m_Transmitters s) + unat (txID pathInfo);
     c \<leftarrow> rd (m_PathCounts s) link;
     let c' = c typeIndex + 1;
     Some (s\<lparr>m_PathMap := m_PathMap s @
                [(h, \<lparr>entry_timeDelay = timeDelay pathInfo,
                      entry_pathIndex = of_nat (length (m_PathMap s))\<rparr>)],
              m_InteractionData := d,
              m_PathCounts := (m_PathCounts s)[link := c(typeIndex := c')],
              m_MaxLinkPaths := (m_MaxLinkPaths s)(typeIndex := max (m_MaxLinkPaths s typeIndex) c'),
              m_TimeDelays := m_TimeDelays s @ [timeDelay pathInfo],
              m_TxIDs := m_TxIDs s @ [txID pathInfo],
              m_RxIDs := m_RxIDs s @ [rxID pathInfo],
              m_PathTypes := m_PathTypes s @ [pathType pathInfo],
              m_NumInteractions := m_NumInteractions s @ [numInteractions pathInfo]\<rparr>)
   }"

text \<open>Lines 68 to 80: the key exists with entry \<open>e\<close> and the candidate is strictly faster.\<close>

definition update_path :: "PathBatch \<Rightarrow> PathInfo \<Rightarrow> nat \<Rightarrow> hash \<Rightarrow> PathEntry \<Rightarrow> PathStorage \<Rightarrow> PathStorage option" where
  "update_path b pathInfo dataIndex h e s = do {
     d \<leftarrow> for_each [0..<numInteractions pathInfo]
            (overwrite_slot b dataIndex (unat (entry_pathIndex e))) (m_InteractionData s);
     tds \<leftarrow> wr (m_TimeDelays s) (unat (entry_pathIndex e)) (timeDelay pathInfo);
     nis \<leftarrow> wr (m_NumInteractions s) (unat (entry_pathIndex e)) (numInteractions pathInfo);
     Some (s\<lparr>m_PathMap := AList.update h (e\<lparr>entry_timeDelay := timeDelay pathInfo\<rparr>) (m_PathMap s),
              m_InteractionData := d,
              m_TimeDelays := tds,
              m_NumInteractions := nis\<rparr>)
   }"

text \<open>The body of the loop of \<open>AddPaths\<close>, for the candidate at \<open>pathIndex\<close>.\<close>

definition AddPath :: "Hasher \<Rightarrow> PathBatch \<Rightarrow> nat \<Rightarrow> PathStorage \<Rightarrow> PathStorage option" where
  "AddPath H b pathIndex s = do {
     pathInfo \<leftarrow> rd (pathInfos b) pathIndex;
     let dataIndex = pathIndex * length (m_InteractionData s);
     h \<leftarrow> GetPathHash H pathInfo (in_labels b) dataIndex;
     (case map_of (m_PathMap s) h of
        None \<Rightarrow> insert_path b pathInfo dataIndex h s
      | Some e \<Rightarrow>
          if entry_timeDelay e > timeDelay pathInfo
          then update_path b pathInfo dataIndex h e s
          else Some s)
   }"

definition AddPaths :: "Hasher \<Rightarrow> PathBatch \<Rightarrow> PathStorage \<Rightarrow> PathStorage option" where
  "AddPaths H b s = for_each [0..<numPaths b] (AddPath H b) s"

text \<open>A sequence of \<open>AddPaths\<close> calls on one store.\<close>

fun AddPaths_seq :: "Hasher \<Rightarrow> PathBatch list \<Rightarrow> PathStorage \<Rightarrow> PathStorage option" where
  "AddPaths_seq H [] s = Some s"
| "AddPaths_seq H (b # bs) s = (case AddPaths H b s of None \<Rightarrow> None | Some s' \<Rightarrow> AddPaths_seq H bs s')"

section \<open>The compact exporter\<close>

record PathData =
  pd_maxNumIa :: nat
  pd_maxLinkPaths :: u32
  pd_transmitters :: "vec3 list"
  pd_receivers :: "vec3 list"
  pd_interactions :: "vec3 list"
  pd_normals :: "vec3 list"
  pd_labels :: "u32 list"
  pd_materials :: "u32 list"
  pd_timeDelays :: "real list"
  pd_txIDs :: "u32 list"
  pd_rxIDs :: "u32 list"
  pd_pathTypes :: "PathType list"
  pd_numInteractions :: "nat list"

text \<open>
  The loop of lines 100 to 106 appends slot \<open>i\<close> of the store to the four flat buffers.
  The loop of lines 92 to 98 only reserves capacity.
\<close>

definition insert_slot :: "InteractionData list \<Rightarrow> nat \<Rightarrow> PathData \<Rightarrow> PathData" where
  "insert_slot d i dat =
     dat\<lparr>pd_interactions := pd_interactions dat @ interactions (d ! i),
         pd_normals := pd_normals dat @ normals (d ! i),
         pd_labels := pd_labels dat @ labels (d ! i),
         pd_materials := pd_materials dat @ materials (d ! i)\<rparr>"

text \<open>
  \<open>ToPathData\<close> is a non-const member function: the model returns the record together
  with the store it leaves behind.
\<close>

definition ToPathData :: "PathStorage \<Rightarrow> PathData \<times> PathStorage" where
  "ToPathData s =
     (let dat0 = \<lparr>pd_maxNumIa = m_MaxNumInteractions s, pd_maxLinkPaths = 0,
                   pd_transmitters = m_Transmitters s, pd_receivers = m_Receivers s,
                   pd_interactions = [], pd_normals = [], pd_labels = [], pd_materials = [],
                   pd_timeDelays = [], pd_txIDs = [], pd_rxIDs = [], pd_pathTypes = [],
                   pd_numInteractions = []\<rparr>;
          dat1 = foldl (\<lambda>dat i. insert_slot (m_InteractionData s) i dat) dat0
                   [0..<length (m_InteractionData s)]
      in (dat1\<lparr>pd_timeDelays := m_TimeDelays s, pd_txIDs := m_TxIDs s, pd_rxIDs := m_RxIDs s,
               pd_pathTypes := m_PathTypes s, pd_numInteractions := m_NumInteractions s\<rparr>, s))"

section \<open>The dense exporter\<close>

text \<open>
  \<open>glm\<close> vectors: subtraction and negation are componentwise; \<open>glm::normalize\<close> scales by
  the inverse square root of the dot product.
\<close>

definition vsub :: "vec3 \<Rightarrow> vec3 \<Rightarrow> vec3" where
  "vsub a b = (case a of (ax, ay, az) \<Rightarrow> case b of (bx, by, bz) \<Rightarrow> (ax - bx, ay - by, az - bz))"

definition vneg :: "vec3 \<Rightarrow> vec3" where
  "vneg a = (case a of (ax, ay, az) \<Rightarrow> (- ax, - ay, - az))"

definition glm_normalize :: "vec3 \<Rightarrow> vec3" where
  "glm_normalize a = (case a of (ax, ay, az) \<Rightarrow>
     (let r = 1 / sqrt (ax * ax + ay * ay + az * az) in (ax * r, ay * r, az * r)))"

definition vec_x :: "vec3 \<Rightarrow> real" where "vec_x a = fst a"

definition vec_y :: "vec3 \<Rightarrow> real" where "vec_y a = fst (snd a)"

definition vec_z :: "vec3 \<Rightarrow> real" where "vec_z a = snd (snd a)"

text \<open>\<open>glm::atan(y, x)\<close> is the two-argument arc tangent.\<close>

definition glm_atan :: "real \<Rightarrow> real \<Rightarrow> real" where
  "glm_atan y x =
     (if x > 0 then arctan (y / x)
      else if x < 0 then (if y \<ge> 0 then arctan (y / x) + pi else arctan (y / x) - pi)
      else if y > 0 then pi / 2 else if y < 0 then - pi / 2 else 0)"

text \<open>
  Modelled from the spec: \<open>Constants::LightSpeedInVacuum\<close> is declared in a header that is
  not among the sources; the spec names it the speed of light in vacuum.
\<close>

definition LightSpeedInVacuum :: real where
  "LightSpeedInVacuum = 299792458"

record SionnaPathTypeData =
  sp_interactions :: "vec3 list"
  sp_normals :: "vec3 list"
  sp_materials :: "u32 list"
  sp_incidentRays :: "vec3 list"
  sp_deflectedRays :: "vec3 list"
  sp_timeDelays :: "real list"
  sp_totalDistance :: "real list"
  sp_mask :: "8 word list"
  sp_kTx :: "vec3 list"
  sp_kRx :: "vec3 list"
  sp_aodElevation :: "real list"
  sp_aodAzimuth :: "real list"
  sp_aoaElevation :: "real list"
  sp_aoaAzimuth :: "real list"

record SionnaPathData =
  sd_transmitters :: "vec3 list"
  sd_receivers :: "vec3 list"
  sd_maxNumIa :: nat
  sd_maxLinkPaths :: "SionnaPathType \<Rightarrow> u32"
  sd_paths :: "SionnaPathType \<Rightarrow> SionnaPathTypeData"

text \<open>
  Modelled from the spec: \<open>SionnaPathData::ReservePaths\<close> is defined in a header that is
  not among the sources. The spec gives the allocation size of every array of a class as
  \<open>maxNumInteractions\<close> (or one more, for the incident rays) times the receivers times the
  transmitters times \<open>maxLinkPaths\<close> of the class; the initial values are those of the
  \<open>resize\<close> calls kept as comments in \<open>ToSionnaPathData\<close> (mask 0, time delay and distance -1).
\<close>

definition ReservePaths_type :: "nat \<Rightarrow> nat \<Rightarrow> nat \<Rightarrow> nat \<Rightarrow> SionnaPathTypeData" where
  "ReservePaths_type maxNumIa numRx numTx maxLink =
     (let interactionBufferElements = maxNumIa * numRx * numTx * maxLink;
          interactionBufferElementsIncident = (maxNumIa + 1) * numRx * numTx * maxLink;
          pathBufferElements = numRx * numTx * maxLink
      in \<lparr>sp_interactions = replicate interactionBufferElements (0, 0, 0),
          sp_normals = replicate interactionBufferElements (0, 0, 0),
          sp_materials = replicate interactionBufferElements 0,
          sp_incidentRays = replicate interactionBufferElementsIncident (0, 0, 0),
          sp_deflectedRays = replicate interactionBufferElements (0, 0, 0),
          sp_timeDelays = replicate pathBufferElements (- 1),
          sp_totalDistance = replicate pathBufferElements (- 1),
          sp_mask = replicate pathBufferElements 0,
          sp_kTx = replicate pathBufferElements (0, 0, 0),
          sp_kRx = replicate pathBufferElements (0, 0, 0),
          sp_aodElevation = replicate pathBufferElements 0,
          sp_aodAzimuth = replicate pathBufferElements 0,
          sp_aoaElevation = replicate pathBufferElements 0,
          sp_aoaAzimuth = replicate pathBufferElements 0\<rparr>)"

definition ReservePaths :: "SionnaPathData \<Rightarrow> SionnaPathData" where
  "ReservePaths sd = sd\<lparr>sd_paths := (\<lambda>ty. ReservePaths_type (sd_maxNumIa sd)
       (length (sd_receivers sd)) (length (sd_transmitters sd)) (unat (sd_maxLinkPaths sd ty)))\<rparr>"

text \<open>Lines 160 to 171: the body of the loop over the interaction slots of one path.\<close>

definition sionna_slot :: "PathStorage \<Rightarrow> nat \<Rightarrow> vec3 \<Rightarrow> vec3 \<Rightarrow> nat \<Rightarrow> nat \<Rightarrow> nat \<Rightarrow>
    nat \<Rightarrow> SionnaPathTypeData \<Rightarrow> SionnaPathTypeData option" where
  "sionna_slot s pathIndex tx rx numIa maxLink base ia P = do {
     let iaOffset = ia * length (m_Receivers s) * length (m_Transmitters s) * maxLink;
     let pathIaIndex = iaOffset + base;
     e \<leftarrow> rd (m_InteractionData s) ia;
     iaPoint \<leftarrow> rd (interactions e) pathIndex;
     is' \<leftarrow> wr (sp_interactions P) pathIaIndex iaPoint;
     nrm \<leftarrow> rd (normals e) pathIndex;
     ns' \<leftarrow> wr (sp_normals P) pathIaIndex nrm;
     mat \<leftarrow> rd (materials e) pathIndex;
     ms' \<leftarrow> wr (sp_materials P) pathIaIndex mat;
     inc \<leftarrow> (if ia > 0 then do {
                e0 \<leftarrow> rd (m_InteractionData s) (ia - 1);
                prev \<leftarrow> rd (interactions e0) pathIndex;
                Some (glm_normalize (vsub iaPoint prev))
              } else Some (glm_normalize (vsub iaPoint tx)));
     ir' \<leftarrow> wr (sp_incidentRays P) pathIaIndex inc;
     defl \<leftarrow> (if int ia < int numIa - 1 then do {
                e1 \<leftarrow> rd (m_InteractionData s) (ia + 1);
                nxt \<leftarrow> rd (interactions e1) pathIndex;
                Some (glm_normalize (vsub nxt iaPoint))
              } else Some (glm_normalize (vsub rx iaPoint)));
     dr' \<leftarrow> wr (sp_deflectedRays P) pathIaIndex defl;
     Some (P\<lparr>sp_interactions := is', sp_normals := ns', sp_materials := ms',
             sp_incidentRays := ir', sp_deflectedRays := dr'\<rparr>)
   }"

text \<open>Lines 173 to 186: the per-path entries, written at \<open>pathDataIndex\<close>.\<close>

definition sionna_scalars :: "PathStorage \<Rightarrow> nat \<Rightarrow> vec3 \<Rightarrow> vec3 \<Rightarrow> nat \<Rightarrow> real \<Rightarrow> nat \<Rightarrow> nat \<Rightarrow>
    SionnaPathTypeData \<Rightarrow> SionnaPathTypeData option" where
  "sionna_scalars s pathIndex tx rx numIa delay maxLink pathDataIndex P = do {
     tds \<leftarrow> wr (sp_timeDelays P) pathDataIndex delay;
     dist \<leftarrow> wr (sp_totalDistance P) pathDataIndex (delay * LightSpeedInVacuum);
     msk \<leftarrow> wr (sp_mask P) pathDataIndex 1;
     ktx \<leftarrow> (if numIa > 0 then do {
                e \<leftarrow> rd (m_InteractionData s) 0;
                p \<leftarrow> rd (interactions e) pathIndex;
                Some (glm_normalize (vsub p tx))
              } else Some (glm_normalize (vsub rx tx)));
     ktxs \<leftarrow> wr (sp_kTx P) pathDataIndex ktx;
     krx \<leftarrow> (if numIa > 0 then do {
                e \<leftarrow> rd (m_InteractionData s) (numIa - 1);
                p \<leftarrow> rd (interactions e) pathIndex;
                Some (glm_normalize (vsub p rx))
              } else Some (glm_normalize (vsub tx rx)));
     krxs \<leftarrow> wr (sp_kRx P) pathDataIndex krx;
     let incidentToRxIndex = numIa * length (m_Receivers s) * length (m_Transmitters s) * maxLink;
     irs \<leftarrow> wr (sp_incidentRays P) (incidentToRxIndex + pathDataIndex) (vneg krx);
     aodE \<leftarrow> wr (sp_aodElevation P) pathDataIndex (arccos (vec_z ktx));
     aodA \<leftarrow> wr (sp_aodAzimuth P) pathDataIndex (glm_atan (vec_y ktx) (vec_x ktx));
     aoaE \<leftarrow> wr (sp_aoaElevation P) pathDataIndex (arccos (vec_z krx));
     aoaA \<leftarrow> wr (sp_aoaAzimuth P) pathDataIndex (glm_atan (vec_y krx) (vec_x krx));
     Some (P\<lparr>sp_timeDelays := tds, sp_totalDistance := dist, sp_mask := msk, sp_kTx := ktxs,
             sp_kRx := krxs, sp_incidentRays := irs, sp_aodElevation := aodE,
             sp_aodAzimuth := aodA, sp_aoaElevation := aoaE, sp_aoaAzimuth := aoaA\<rparr>)
   }"

text \<open>
  The body of the loop of \<open>ToSionnaPathData\<close>. The state is the store (its counters are
  decremented) and the arrays of the four classes.
\<close>

definition sionna_path :: "nat \<Rightarrow> PathStorage \<times> (SionnaPathType \<Rightarrow> SionnaPathTypeData) \<Rightarrow>
    (PathStorage \<times> (SionnaPathType \<Rightarrow> SionnaPathTypeData)) option" where
  "sionna_path pathIndex st = (case st of (s, paths) \<Rightarrow> do {
     ty \<leftarrow> rd (m_PathTypes s) pathIndex;
     let typeIndex = GetSionnaPathType ty;
     txID \<leftarrow> rd (m_TxIDs s) pathIndex;
     rxID \<leftarrow> rd (m_RxIDs s) pathIndex;
     tx \<leftarrow> rd (m_Transmitters s) (unat txID);
     rx \<leftarrow> rd (m_Receivers s) (unat rxID);
     numIa \<leftarrow> rd (m_NumInteractions s) pathIndex;
     delay \<leftarrow> rd (m_TimeDelays s) pathIndex;
     let link = unat rxID * length (m_Transmitters s) + unat txID;
     c \<leftarrow> rd (m_PathCounts s) link;
     let c' = c typeIndex - 1;
     let s' = s\<lparr>m_PathCounts := (m_PathCounts s)[link := c(typeIndex := c')]\<rparr>;
     let pathOffset = unat c';
     let txOffset = unat (txID * m_MaxLinkPaths s typeIndex);
     let rxOffset = unat rxID * length (m_Transmitters s) * unat (m_MaxLinkPaths s typeIndex);
     P1 \<leftarrow> for_each [0..<m_MaxNumInteractions s]
             (sionna_slot s pathIndex tx rx numIa (unat (m_MaxLinkPaths s typeIndex))
                (rxOffset + txOffset + pathOffset))
             (paths typeIndex);
     P2 \<leftarrow> sionna_scalars s pathIndex tx rx numIa delay (unat (m_MaxLinkPaths s typeIndex))
             (txOffset + rxOffset + pathOffset) P1;
     Some (s', paths(typeIndex := P2))
   })"

definition ToSionnaPathData :: "PathStorage \<Rightarrow> (SionnaPathData \<times> PathStorage) option" where
  "ToSionnaPathData s =
     (let sionnaData = ReservePaths \<lparr>sd_transmitters = m_Transmitters s, sd_receivers = m_Receivers s,
                         sd_maxNumIa = m_MaxNumInteractions s, sd_maxLinkPaths = m_MaxLinkPaths s,
                         sd_paths = (\<lambda>_. ReservePaths_type 0 0 0 0)\<rparr>;
          numTotalPaths = length (m_TxIDs s) mod 2 ^ 32
      in case for_each [0..<numTotalPaths] sionna_path (s, sd_paths sionnaData) of
           None \<Rightarrow> None
         | Some (s', paths) \<Rightarrow> Some (sionnaData\<lparr>sd_paths := paths\<rparr>, s'))"

section \<open>The point-cloud environment\<close>

text \<open>
  The embedding of \<^verbatim>\<open>Nimbus/PointCloudEnvironment.cpp\<close>. The point array and its
  length are one list. The device buffers and the acceleration structure are one abstract
  component \<open>m_Device\<close> of the state; what the device computes, the voxel hash of
  \<open>Utils::WorldToVoxelID\<close>, the constant \<open>Constants::InvalidPointIndex\<close> and the conversion of
  a float to an unsigned integer (not defined by the language outside the range of the
  target) are parameters: their definitions are not among the sources.
\<close>

record PointData =
  pt_position :: vec3
  pt_normal :: vec3
  pt_label :: u32
  pt_material :: u32

record PointNode =
  node_position :: vec3
  node_normal :: vec3
  node_label :: u32
  node_materialID :: u32
  node_ieNext :: u32

record Aabb =
  aabb_min :: vec3
  aabb_max :: vec3

text \<open>The arguments of the constructor \<open>VoxelWorldInfo(origin, voxelSize, dimensions)\<close>.\<close>

record VoxelWorldInfo =
  vw_origin :: vec3
  vw_voxelSize :: real
  vw_dimensions :: "u32 \<times> u32 \<times> u32"

record 'g PointCloudEnvironment =
  m_Aabb :: Aabb
  m_VoxelWorldInfo :: VoxelWorldInfo
  m_IeCount :: u32
  m_PointCount :: u32
  m_Device :: 'g

record 'g Externals =
  float_to_uint :: "real \<Rightarrow> u32"
  WorldToVoxelID :: "vec3 \<Rightarrow> VoxelWorldInfo \<Rightarrow> 64 word"
  InvalidPointIndex :: u32
  device_generate :: "PointNode list \<Rightarrow> (u32 \<times> u32) list \<Rightarrow> real \<Rightarrow> VoxelWorldInfo \<Rightarrow> u32 \<Rightarrow>
                      'g \<Rightarrow> 'g \<times> u32 \<times> bool"

definition PointCloudEnvironment_ctor :: "'g \<Rightarrow> 'g PointCloudEnvironment" where
  "PointCloudEnvironment_ctor g =
     \<lparr>m_Aabb = \<lparr>aabb_min = (0, 0, 0), aabb_max = (0, 0, 0)\<rparr>,
      m_VoxelWorldInfo = \<lparr>vw_origin = (0, 0, 0), vw_voxelSize = 0, vw_dimensions = (0, 0, 0)\<rparr>,
      m_IeCount = 0, m_PointCount = 0, m_Device = g\<rparr>"

definition vmin :: "vec3 \<Rightarrow> vec3 \<Rightarrow> vec3" where
  "vmin a b = (case a of (ax, ay, az) \<Rightarrow> case b of (bx, by, bz) \<Rightarrow> (min ax bx, min ay by, min az bz))"

definition vmax :: "vec3 \<Rightarrow> vec3 \<Rightarrow> vec3" where
  "vmax a b = (case a of (ax, ay, az) \<Rightarrow> case b of (bx, by, bz) \<Rightarrow> (max ax bx, max ay by, max az bz))"

definition vadd_scalar :: "vec3 \<Rightarrow> real \<Rightarrow> vec3" where
  "vadd_scalar a c = (case a of (ax, ay, az) \<Rightarrow> (ax + c, ay + c, az + c))"

text \<open>The body of the loop of \<open>LoadPoints\<close>.\<close>

definition load_point :: "PointData \<Rightarrow> 'g Externals \<Rightarrow> PointNode list \<times> Aabb \<Rightarrow> PointNode list \<times> Aabb" where
  "load_point point ext st = (case st of (pointNodes, box) \<Rightarrow>
     (pointNodes @ [\<lparr>node_position = pt_position point, node_normal = pt_normal point,
                     node_label = pt_label point, node_materialID = pt_material point,
                     node_ieNext = InvalidPointIndex ext\<rparr>],
      \<lparr>aabb_min = vmin (aabb_min box) (pt_position point),
       aabb_max = vmax (aabb_max box) (pt_position point)\<rparr>))"

definition LoadPoints :: "'g Externals \<Rightarrow> PointData list \<Rightarrow> 'g PointCloudEnvironment \<Rightarrow>
    PointNode list \<times> 'g PointCloudEnvironment" where
  "LoadPoints ext points s =
     (let box0 = \<lparr>aabb_min = pt_position (points ! 0), aabb_max = pt_position (points ! 0)\<rparr>;
          (pointNodes, box1) = foldl (\<lambda>st point. load_point point ext st) ([], box0) points;
          bias = 1 / 100
      in (pointNodes, s\<lparr>m_Aabb := \<lparr>aabb_min = vadd_scalar (aabb_min box1) (- bias),
                                     aabb_max = vadd_scalar (aabb_max box1) bias\<rparr>\<rparr>))"

text \<open>\<open>glm::uvec3(glm::ceil((max - min) / voxelSize))\<close>.\<close>

definition voxel_dimensions :: "'g Externals \<Rightarrow> Aabb \<Rightarrow> real \<Rightarrow> u32 \<times> u32 \<times> u32" where
  "voxel_dimensions ext box voxelSize =
     (case vsub (aabb_max box) (aabb_min box) of (dx, dy, dz) \<Rightarrow>
        (float_to_uint ext (of_int \<lceil>dx / voxelSize\<rceil>),
         float_to_uint ext (of_int \<lceil>dy / voxelSize\<rceil>),
         float_to_uint ext (of_int \<lceil>dz / voxelSize\<rceil>)))"

definition ComputeVoxelWorld :: "'g Externals \<Rightarrow> real \<Rightarrow> 'g PointCloudEnvironment \<Rightarrow>
    bool \<times> 'g PointCloudEnvironment" where
  "ComputeVoxelWorld ext voxelSize s =
     (let voxelDimensions = voxel_dimensions ext (m_Aabb s) voxelSize;
          s' = s\<lparr>m_VoxelWorldInfo := \<lparr>vw_origin = aabb_min (m_Aabb s), vw_voxelSize = voxelSize,
                                       vw_dimensions = voxelDimensions\<rparr>\<rparr>
      in (case voxelDimensions of (x, y, z) \<Rightarrow> x > 0 \<and> y > 0 \<and> z > 0 \<and> voxelSize > 0, s'))"

text \<open>
  The body of the loop of \<open>LinkPointNodes\<close>; the state is the point nodes, the voxel node
  indices, the primitive hash map and \<open>m_IeCount\<close>. \<open>vector::at\<close> throws out of range, and
  the 32-bit loop index never reaches a size of \<open>2 ^ 32\<close> or more: no result in both cases.
\<close>

definition link_point :: "'g Externals \<Rightarrow> VoxelWorldInfo \<Rightarrow> nat \<Rightarrow>
    PointNode list \<times> (u32 \<times> u32) list \<times> (64 word \<times> u32) list \<times> u32 \<Rightarrow>
    (PointNode list \<times> (u32 \<times> u32) list \<times> (64 word \<times> u32) list \<times> u32) option" where
  "link_point ext vw pointIndex st = (case st of (pointNodes, voxelNodeIndices, primitiveHashMap, ieCount) \<Rightarrow> do {
     pointNode \<leftarrow> rd pointNodes pointIndex;
     let voxelID = WorldToVoxelID ext (node_position pointNode) vw;
     let ident = push_bit 32 voxelID OR ucast (node_label pointNode);
     let (slot, voxelNodeIndices1, primitiveHashMap1, ieCount1) =
           (case map_of primitiveHashMap ident of
              None \<Rightarrow> (ieCount, voxelNodeIndices @ [(InvalidPointIndex ext, 0)],
                        primitiveHashMap @ [(ident, ieCount)], ieCount + 1)
            | Some v \<Rightarrow> (v, voxelNodeIndices, primitiveHashMap, ieCount));
     parent \<leftarrow> rd voxelNodeIndices1 (unat slot);
     Some (pointNodes[pointIndex := pointNode\<lparr>node_ieNext := fst parent\<rparr>],
           voxelNodeIndices1[unat slot := (of_nat pointIndex, snd parent + 1)],
           primitiveHashMap1, ieCount1)
   })"

definition LinkPointNodes :: "'g Externals \<Rightarrow> PointNode list \<Rightarrow> 'g PointCloudEnvironment \<Rightarrow>
    ((u32 \<times> u32) list \<times> PointNode list \<times> 'g PointCloudEnvironment) option" where
  "LinkPointNodes ext pointNodes s =
     (if length pointNodes < 2 ^ 32
      then case for_each [0..<length pointNodes] (link_point ext (m_VoxelWorldInfo s))
                  (pointNodes, [], [], m_IeCount s) of
             None \<Rightarrow> None
           | Some (pointNodes', voxelNodeIndices, primitiveHashMap, ieCount) \<Rightarrow>
               Some (voxelNodeIndices, pointNodes', s\<lparr>m_IeCount := ieCount\<rparr>)
      else None)"

text \<open>
  \<open>GenerateRayTracingData\<close> allocates the device buffers, launches the kernel, builds the
  acceleration structure, downloads the point count and returns whether the structure is
  valid: all of it on the device.
\<close>

definition GenerateRayTracingData :: "'g Externals \<Rightarrow> PointNode list \<Rightarrow> (u32 \<times> u32) list \<Rightarrow> real \<Rightarrow>
    'g PointCloudEnvironment \<Rightarrow> bool \<times> 'g PointCloudEnvironment" where
  "GenerateRayTracingData ext pointNodes voxelNodeIndices aabbBias s =
     (case device_generate ext pointNodes voxelNodeIndices aabbBias (m_VoxelWorldInfo s) (m_IeCount s)
             (m_Device s) of
        (g, pointCount, valid) \<Rightarrow> (valid, s\<lparr>m_Device := g, m_PointCount := pointCount\<rparr>))"

text \<open>
  \<open>Init\<close>; the result is \<open>None\<close> when \<open>LinkPointNodes\<close> has none. The \<open>LOG\<close> calls have no
  effect on the state.
\<close>

definition Init :: "'g Externals \<Rightarrow> PointData list \<Rightarrow> real \<Rightarrow> real \<Rightarrow> 'g PointCloudEnvironment \<Rightarrow>
    (bool \<times> 'g PointCloudEnvironment) option" where
  "Init ext points voxelSize aabbBias s =
     (if length points \<le> 1 then Some (False, s)
      else case LoadPoints ext points s of (pointNodes, s1) \<Rightarrow>
        case ComputeVoxelWorld ext voxelSize s1 of (ok, s2) \<Rightarrow>
          if \<not> ok then Some (False, s2)
          else case LinkPointNodes ext pointNodes s2 of
                 None \<Rightarrow> None
               | Some (voxelNodeIndices, pointNodes', s3) \<Rightarrow>
                   (case GenerateRayTracingData ext pointNodes' voxelNodeIndices aabbBias s3 of
                      (ok', s4) \<Rightarrow> if \<not> ok' then Some (False, s4) else Some (True, s4)))"

section \<open>Invariants and auxiliary notions\<close>

text \<open>
  The effect of the insertion loop (lines 43 to 58) and of the overwriting loop (lines 72 to
  79) on the row of one interaction slot.
\<close>

definition pushed :: "PathBatch \<Rightarrow> PathInfo \<Rightarrow> nat \<Rightarrow> nat \<Rightarrow> InteractionData \<Rightarrow> InteractionData" where
  "pushed b pinfo di ia e =
     (if ia < numInteractions pinfo
      then \<lparr>interactions = interactions e @ [in_interactions b ! (di + ia)],
            normals = normals e @ [in_normals b ! (di + ia)],
            labels = labels e @ [in_labels b ! (di + ia)],
            materials = materials e @ [in_materials b ! (di + ia)]\<rparr>
      else \<lparr>interactions = interactions e @ [(0, 0, 0)], normals = normals e @ [(0, 0, 0)],
            labels = labels e @ [NOT 0], materials = materials e @ [NOT 0]\<rparr>)"

definition overwritten :: "PathBatch \<Rightarrow> nat \<Rightarrow> nat \<Rightarrow> nat \<Rightarrow> InteractionData \<Rightarrow> InteractionData" where
  "overwritten b di p ia e =
     \<lparr>interactions = (interactions e)[p := in_interactions b ! (di + ia)],
      normals = (normals e)[p := in_normals b ! (di + ia)],
      labels = (labels e)[p := in_labels b ! (di + ia)],
      materials = (materials e)[p := in_materials b ! (di + ia)]\<rparr>"

text \<open>
  The row of the counter table that line 61 accesses.
\<close>

definition link_of :: "PathStorage \<Rightarrow> u32 \<Rightarrow> u32 \<Rightarrow> nat" where
  "link_of s rx tx = unat rx * length (m_Transmitters s) + unat tx"

text \<open>
  A later store extends an earlier one: the per-path arrays grow at the end only, and every
  key of the map keeps its path index.
\<close>

definition extends :: "PathStorage \<Rightarrow> PathStorage \<Rightarrow> bool" where
  "extends s s' \<longleftrightarrow>
     (\<exists>xs. m_TxIDs s' = m_TxIDs s @ xs) \<and> (\<exists>xs. m_RxIDs s' = m_RxIDs s @ xs) \<and>
     (\<exists>xs. m_PathTypes s' = m_PathTypes s @ xs) \<and>
     (\<exists>xs. map fst (m_PathMap s') = map fst (m_PathMap s) @ xs) \<and>
     (\<forall>k e. map_of (m_PathMap s) k = Some e \<longrightarrow>
        (\<exists>e'. map_of (m_PathMap s') k = Some e' \<and> entry_pathIndex e' = entry_pathIndex e))"

text \<open>
  The identity key that \<open>GetPathHash\<close> computes when all its reads are in range, and the
  candidates of a batch and of a sequence of batches: each with its key.
\<close>

definition path_key :: "Hasher \<Rightarrow> PathInfo \<Rightarrow> u32 list \<Rightarrow> nat \<Rightarrow> hash" where
  "path_key H pinfo lbls di =
     foldl (CombineHash H) (CalculateHash H (txID pinfo) (rxID pinfo) (pathType pinfo))
       (take (numInteractions pinfo) (drop di lbls))"

definition batch_candidates :: "Hasher \<Rightarrow> nat \<Rightarrow> PathBatch \<Rightarrow> (hash \<times> PathInfo) list" where
  "batch_candidates H maxIa b =
     map (\<lambda>i. (path_key H (pathInfos b ! i) (in_labels b) (i * maxIa), pathInfos b ! i)) [0..<numPaths b]"

definition all_candidates :: "Hasher \<Rightarrow> nat \<Rightarrow> PathBatch list \<Rightarrow> (hash \<times> PathInfo) list" where
  "all_candidates H maxIa bs = concat (map (batch_candidates H maxIa) bs)"

text \<open>
  The time delays of the candidates with a given key.
\<close>

definition delays_of :: "(hash \<times> PathInfo) list \<Rightarrow> hash \<Rightarrow> real list" where
  "delays_of cands k = map (\<lambda>c. timeDelay (snd c)) (filter (\<lambda>c. fst c = k) cands)"

text \<open>
  Invariant of \<open>AddPaths\<close> with respect to the candidates seen so far: the keys of the map
  are distinct and are the keys of the candidates, and each entry holds the minimum of the
  time delays of its key.
\<close>

definition keys_inv :: "nat \<Rightarrow> (hash \<times> PathInfo) list \<Rightarrow> PathStorage \<Rightarrow> bool" where
  "keys_inv maxIa cands s \<longleftrightarrow>
     length (m_InteractionData s) = maxIa \<and>
     distinct (map fst (m_PathMap s)) \<and>
     set (map fst (m_PathMap s)) = set (map fst cands) \<and>
     length (m_TimeDelays s) = length (m_PathMap s) \<and>
     (\<forall>k e. map_of (m_PathMap s) k = Some e \<longrightarrow> entry_timeDelay e = Min (set (delays_of cands k)))"

text \<open>
  All per-path arrays have one entry per retained path, there are \<open>maxNumInteractions\<close>
  rows of interaction data, and the entry inserted as number \<open>i\<close> has path index \<open>i\<close>.
\<close>

definition shape_inv :: "PathStorage \<Rightarrow> bool" where
  "shape_inv s \<longleftrightarrow>
     length (m_RxIDs s) = length (m_TxIDs s) \<and>
     length (m_PathTypes s) = length (m_TxIDs s) \<and>
     length (m_NumInteractions s) = length (m_TxIDs s) \<and>
     length (m_TimeDelays s) = length (m_TxIDs s) \<and>
     length (m_PathMap s) = length (m_TxIDs s) \<and>
     length (m_InteractionData s) = m_MaxNumInteractions s \<and>
     (\<forall>ia < length (m_InteractionData s).
        length (interactions (m_InteractionData s ! ia)) = length (m_TxIDs s) \<and>
        length (normals (m_InteractionData s ! ia)) = length (m_TxIDs s) \<and>
        length (labels (m_InteractionData s ! ia)) = length (m_TxIDs s) \<and>
        length (materials (m_InteractionData s ! ia)) = length (m_TxIDs s)) \<and>
     (\<forall>i < length (m_PathMap s). entry_pathIndex (snd (m_PathMap s ! i)) = of_nat i)"

text \<open>
  Candidates with the same key have the same interaction count; under this condition the
  slots at or beyond the stored count of a path hold the sentinel label and material.
\<close>

definition consistent_counts :: "(hash \<times> PathInfo) list \<Rightarrow> bool" where
  "consistent_counts cands \<longleftrightarrow>
     (\<forall>c1 \<in> set cands. \<forall>c2 \<in> set cands.
        fst c1 = fst c2 \<longrightarrow> numInteractions (snd c1) = numInteractions (snd c2))"

definition sentinel_inv :: "(hash \<times> PathInfo) list \<Rightarrow> PathStorage \<Rightarrow> bool" where
  "sentinel_inv cands s \<longleftrightarrow>
     (\<forall>i < length (m_PathMap s). \<forall>c \<in> set cands.
        fst c = fst (m_PathMap s ! i) \<longrightarrow> m_NumInteractions s ! i = numInteractions (snd c)) \<and>
     (\<forall>i < length (m_PathMap s). \<forall>ia < length (m_InteractionData s).
        m_NumInteractions s ! i \<le> ia \<longrightarrow>
          labels (m_InteractionData s ! ia) ! i = NOT 0 \<and>
          materials (m_InteractionData s ! ia) ! i = NOT 0)"

text \<open>
  The invariant of the store that every sequence of \<open>AddPaths\<close> calls maintains.
\<close>

definition store_inv :: "nat \<Rightarrow> (hash \<times> PathInfo) list \<Rightarrow> PathStorage \<Rightarrow> bool" where
  "store_inv maxIa cands s \<longleftrightarrow>
     keys_inv maxIa cands s \<and> shape_inv s \<and>
     (consistent_counts cands \<and> length (m_PathMap s) \<le> 2 ^ 32 \<longrightarrow> sentinel_inv cands s)"

text \<open>
  The local variables of the loop body of \<open>ToSionnaPathData\<close> for the path at \<open>k\<close>: its
  class, its row in the counter table, its link-local slot (\<open>pathOffset\<close>, the counter after
  the decrement) and its per-path write index (\<open>pathDataIndex\<close>).
\<close>

definition path_class :: "PathStorage \<Rightarrow> nat \<Rightarrow> SionnaPathType" where
  "path_class s k = GetSionnaPathType (m_PathTypes s ! k)"

definition path_link :: "PathStorage \<Rightarrow> nat \<Rightarrow> nat" where
  "path_link s k = unat (m_RxIDs s ! k) * length (m_Transmitters s) + unat (m_TxIDs s ! k)"

definition path_slot :: "PathStorage \<Rightarrow> nat \<Rightarrow> nat" where
  "path_slot s k = unat ((m_PathCounts s ! path_link s k) (path_class s k) - 1)"

definition path_write_index :: "PathStorage \<Rightarrow> nat \<Rightarrow> nat" where
  "path_write_index s k =
     unat (m_TxIDs s ! k * m_MaxLinkPaths s (path_class s k)) +
     unat (m_RxIDs s ! k) * length (m_Transmitters s) * unat (m_MaxLinkPaths s (path_class s k)) +
     path_slot s k"

text \<open>
  The number of paths of a class on a row of the counter table: among the paths from index
  \<open>i\<close> on, and among all of them.
\<close>

definition rem_count :: "PathStorage \<Rightarrow> nat \<Rightarrow> nat \<Rightarrow> SionnaPathType \<Rightarrow> nat" where
  "rem_count s i l c =
     length (filter (\<lambda>k. path_link s k = l \<and> path_class s k = c) [i..<length (m_TxIDs s)])"

definition link_count :: "PathStorage \<Rightarrow> nat \<Rightarrow> SionnaPathType \<Rightarrow> nat" where
  "link_count s l c = rem_count s 0 l c"

text \<open>
  The counter table has \<open>txCount + rxCount\<close> rows, each counter is the 32-bit count of the
  paths of its row and class, every retained path has a row, and no counter exceeds
  \<open>m_MaxLinkPaths\<close> of its class.
\<close>

definition counts_inv :: "PathStorage \<Rightarrow> bool" where
  "counts_inv s \<longleftrightarrow>
     length (m_PathCounts s) = length (m_Transmitters s) + length (m_Receivers s) \<and>
     (\<forall>l < length (m_PathCounts s). \<forall>c. (m_PathCounts s ! l) c = of_nat (link_count s l c)) \<and>
     (\<forall>k < length (m_TxIDs s). path_link s k < length (m_PathCounts s)) \<and>
     (\<forall>l < length (m_PathCounts s). \<forall>c. (m_PathCounts s ! l) c \<le> m_MaxLinkPaths s c)"

text \<open>
  What the dense exporter relies on.
\<close>

definition export_inv :: "PathStorage \<Rightarrow> bool" where
  "export_inv s \<longleftrightarrow> shape_inv s \<and> counts_inv s"

text \<open>
  Invariant of the loop of \<open>ToSionnaPathData\<close> before the path at index \<open>i\<close>: the arrays
  the loop reads are those of the initial store \<open>s0\<close>, each counter holds the number of
  paths still to export, and on every row the mask holds 1 exactly in the slots from that
  number up to the number of paths of the row.
\<close>

definition sionna_inv :: "PathStorage \<Rightarrow> nat \<Rightarrow>
    PathStorage \<times> (SionnaPathType \<Rightarrow> SionnaPathTypeData) \<Rightarrow> bool" where
  "sionna_inv s0 i st \<longleftrightarrow>
     m_TxIDs (fst st) = m_TxIDs s0 \<and> m_RxIDs (fst st) = m_RxIDs s0 \<and>
     m_PathTypes (fst st) = m_PathTypes s0 \<and> m_Transmitters (fst st) = m_Transmitters s0 \<and>
     m_Receivers (fst st) = m_Receivers s0 \<and> m_MaxLinkPaths (fst st) = m_MaxLinkPaths s0 \<and>
     length (m_PathCounts (fst st)) = length (m_PathCounts s0) \<and>
     (\<forall>l < length (m_PathCounts s0). \<forall>c.
        (m_PathCounts (fst st) ! l) c = of_nat (rem_count s0 i l c)) \<and>
     (\<forall>c. length (sp_mask (snd st c)) =
        length (m_Receivers s0) * length (m_Transmitters s0) * unat (m_MaxLinkPaths s0 c)) \<and>
     (\<forall>c l j. j < unat (m_MaxLinkPaths s0 c) \<longrightarrow>
        l * unat (m_MaxLinkPaths s0 c) + j < length (sp_mask (snd st c)) \<longrightarrow>
        sp_mask (snd st c) ! (l * unat (m_MaxLinkPaths s0 c) + j) =
          (if rem_count s0 i l c \<le> j \<and> j < link_count s0 l c then 1 else 0)) \<and>
     (\<forall>k < i. unat (m_TxIDs s0 ! k) < length (m_Transmitters s0) \<and>
              unat (m_RxIDs s0 ! k) < length (m_Receivers s0))"

text \<open>The number of retained paths of a class on the link of a transmitter and a receiver.\<close>

definition link_paths :: "PathStorage \<Rightarrow> SionnaPathType \<Rightarrow> u32 \<Rightarrow> u32 \<Rightarrow> nat" where
  "link_paths s c tx rx =
     length (filter (\<lambda>k. m_TxIDs s ! k = tx \<and> m_RxIDs s ! k = rx \<and>
                          GetSionnaPathType (m_PathTypes s ! k) = c) [0..<length (m_TxIDs s)])"

text \<open>
  Two blocks of output arrays with the same lengths; the block that \<open>ReservePaths\<close>
  allocates for a class; and the part of the loop invariant that keeps every write of the
  loop in range.
\<close>

definition same_shape :: "SionnaPathTypeData \<Rightarrow> SionnaPathTypeData \<Rightarrow> bool" where
  "same_shape P P' \<longleftrightarrow>
     length (sp_interactions P') = length (sp_interactions P) \<and>
     length (sp_normals P') = length (sp_normals P) \<and>
     length (sp_materials P') = length (sp_materials P) \<and>
     length (sp_incidentRays P') = length (sp_incidentRays P) \<and>
     length (sp_deflectedRays P') = length (sp_deflectedRays P) \<and>
     length (sp_timeDelays P') = length (sp_timeDelays P) \<and>
     length (sp_totalDistance P') = length (sp_totalDistance P) \<and>
     length (sp_mask P') = length (sp_mask P) \<and>
     length (sp_kTx P') = length (sp_kTx P) \<and>
     length (sp_kRx P') = length (sp_kRx P) \<and>
     length (sp_aodElevation P') = length (sp_aodElevation P) \<and>
     length (sp_aodAzimuth P') = length (sp_aodAzimuth P) \<and>
     length (sp_aoaElevation P') = length (sp_aoaElevation P) \<and>
     length (sp_aoaAzimuth P') = length (sp_aoaAzimuth P)"

definition reserved :: "PathStorage \<Rightarrow> SionnaPathType \<Rightarrow> SionnaPathTypeData" where
  "reserved s0 c = ReservePaths_type (m_MaxNumInteractions s0) (length (m_Receivers s0))
                     (length (m_Transmitters s0)) (unat (m_MaxLinkPaths s0 c))"

definition export_ready :: "PathStorage \<Rightarrow>
    PathStorage \<times> (SionnaPathType \<Rightarrow> SionnaPathTypeData) \<Rightarrow> bool" where
  "export_ready s0 st \<longleftrightarrow>
     m_NumInteractions (fst st) = m_NumInteractions s0 \<and>
     m_TimeDelays (fst st) = m_TimeDelays s0 \<and>
     m_InteractionData (fst st) = m_InteractionData s0 \<and>
     m_MaxNumInteractions (fst st) = m_MaxNumInteractions s0 \<and>
     (\<forall>c. same_shape (reserved s0 c) (snd st c))"

text \<open>
  The per-path write index of the path at \<open>k\<close> in the arrays of its class, as a function of
  the store before the export: the first slot of the path's link, plus the counter of the
  link after the decrement, which is the number of paths of the same link and class from
  index \<open>k\<close> on, minus 1.
\<close>

definition export_index :: "PathStorage \<Rightarrow> nat \<Rightarrow> nat" where
  "export_index s k =
     path_link s k * unat (m_MaxLinkPaths s (path_class s k)) +
     (rem_count s k (path_link s k) (path_class s k) - 1)"

text \<open>
  Invariant of the loop of \<open>ToSionnaPathData\<close> before the path at index \<open>i\<close>: the entries of
  the earlier paths with no interaction are in place.
\<close>

definition los_inv :: "PathStorage \<Rightarrow> nat \<Rightarrow>
    PathStorage \<times> (SionnaPathType \<Rightarrow> SionnaPathTypeData) \<Rightarrow> bool" where
  "los_inv s0 i st \<longleftrightarrow>
     (\<forall>k < i. m_NumInteractions s0 ! k = 0 \<longrightarrow>
        sp_kTx (snd st (path_class s0 k)) ! export_index s0 k =
          glm_normalize (vsub (m_Receivers s0 ! unat (m_RxIDs s0 ! k))
                              (m_Transmitters s0 ! unat (m_TxIDs s0 ! k))) \<and>
        sp_kRx (snd st (path_class s0 k)) ! export_index s0 k =
          glm_normalize (vsub (m_Transmitters s0 ! unat (m_TxIDs s0 ! k))
                              (m_Receivers s0 ! unat (m_RxIDs s0 ! k))) \<and>
        sp_incidentRays (snd st (path_class s0 k)) ! export_index s0 k =
          vneg (glm_normalize (vsub (m_Transmitters s0 ! unat (m_TxIDs s0 ! k))
                                    (m_Receivers s0 ! unat (m_RxIDs s0 ! k)))))"

text \<open>
  A batch that \<open>AddPaths\<close> can read: \<open>numPaths\<close> path records, \<open>numPaths *
  maxNumInteractions\<close> entries in each of the four interaction arrays, interaction counts
  at most \<open>maxNumInteractions\<close>, and links whose row \<open>rxID * txCount + txID\<close> exists in the
  counter table of \<open>txCount + rxCount\<close> rows.
\<close>

definition batch_ok :: "nat \<Rightarrow> nat \<Rightarrow> nat \<Rightarrow> PathBatch \<Rightarrow> bool" where
  "batch_ok maxIa T R b \<longleftrightarrow>
     numPaths b \<le> length (pathInfos b) \<and>
     numPaths b * maxIa \<le> length (in_interactions b) \<and>
     numPaths b * maxIa \<le> length (in_normals b) \<and>
     numPaths b * maxIa \<le> length (in_labels b) \<and>
     numPaths b * maxIa \<le> length (in_materials b) \<and>
     (\<forall>i < numPaths b.
        numInteractions (pathInfos b ! i) \<le> maxIa \<and>
        unat (rxID (pathInfos b ! i)) * T + unat (txID (pathInfos b ! i)) < T + R)"

text \<open>
  The entry of \<open>m_TimeDelays\<close> at a path's slot is the time delay cached in the map entry
  of the path's key (the slot index of the map entry is a 32-bit value).
\<close>

definition delays_inv :: "PathStorage \<Rightarrow> bool" where
  "delays_inv s \<longleftrightarrow>
     (length (m_PathMap s) \<le> 2 ^ 32 \<longrightarrow>
        (\<forall>i < length (m_PathMap s). m_TimeDelays s ! i = entry_timeDelay (snd (m_PathMap s ! i))))"

section \<open>Example inputs\<close>

text \<open>
  A polynomial digest as an instance of the two hash functions, and the batch of the
  scenario of the spec: two candidates on link (0, 0), type Specular, one interaction
  with label 5, time delays 3 and 2.
\<close>

fun PathType_code :: "PathType \<Rightarrow> hash" where
  "PathType_code LineOfSight = 0"
| "PathType_code Specular = 1"
| "PathType_code Diffraction = 2"
| "PathType_code Scattering = 3"
| "PathType_code RIS = 4"

definition example_hasher :: Hasher where
  "example_hasher = \<lparr>CalculateHash = (\<lambda>tx rx ty. 31 * (31 * ucast tx + ucast rx) + PathType_code ty),
                      CombineHash = (\<lambda>h l. 31 * h + ucast l)\<rparr>"

definition example_batch :: PathBatch where
  "example_batch = \<lparr>numPaths = 2,
     pathInfos = [\<lparr>txID = 0, rxID = 0, pathType = Specular, numInteractions = 1, timeDelay = 3\<rparr>,
                  \<lparr>txID = 0, rxID = 0, pathType = Specular, numInteractions = 1, timeDelay = 2\<rparr>],
     in_interactions = [(1, 1, 0), (1, 2, 0)], in_normals = [(0, 0, 1), (0, 0, 1)],
     in_labels = [5, 5], in_materials = [7, 7]\<rparr>"

text \<open>A later, faster candidate of the same identity.\<close>

definition example_batch_faster :: PathBatch where
  "example_batch_faster = \<lparr>numPaths = 1,
     pathInfos = [\<lparr>txID = 0, rxID = 0, pathType = Specular, numInteractions = 1, timeDelay = 1\<rparr>],
     in_interactions = [(1, 3, 0)], in_normals = [(0, 0, 1)],
     in_labels = [5], in_materials = [7]\<rparr>"

definition example_store :: PathStorage where
  "example_store = PathStorage_ctor 1 [(0, 0, 0)] [(4, 0, 0)]"

text \<open>The store after the batch of the scenario, and after the later candidate.\<close>

definition example_first :: PathStorage where
  "example_first = the (AddPaths_seq example_hasher [example_batch] example_store)"


text \<open>
  Two candidates with the same key under \<open>example_hasher\<close> and different interaction
  counts: link (0, 0), LineOfSight, labels 0, 0 and label 0.
\<close>

definition collide_batch_long :: PathBatch where
  "collide_batch_long = \<lparr>numPaths = 1,
     pathInfos = [\<lparr>txID = 0, rxID = 0, pathType = LineOfSight, numInteractions = 2, timeDelay = 3\<rparr>],
     in_interactions = [(1, 1, 0), (2, 1, 0)], in_normals = [(0, 0, 1), (0, 0, 1)],
     in_labels = [0, 0], in_materials = [7, 9]\<rparr>"

definition collide_batch_short :: PathBatch where
  "collide_batch_short = \<lparr>numPaths = 1,
     pathInfos = [\<lparr>txID = 0, rxID = 0, pathType = LineOfSight, numInteractions = 1, timeDelay = 2\<rparr>],
     in_interactions = [(1, 2, 0), (0, 0, 0)], in_normals = [(0, 0, 1), (0, 0, 0)],
     in_labels = [0, NOT 0], in_materials = [8, NOT 0]\<rparr>"

definition collide_run :: "PathStorage option" where
  "collide_run = AddPaths_seq example_hasher [collide_batch_long, collide_batch_short]
                   (PathStorage_ctor 2 [(0, 0, 0)] [(4, 0, 0)])"

definition short_run :: "PathStorage option" where
  "short_run = AddPaths_seq example_hasher [collide_batch_short]
                   (PathStorage_ctor 2 [(0, 0, 0)] [(4, 0, 0)])"

definition long_run :: "PathStorage option" where
  "long_run = AddPaths_seq example_hasher [collide_batch_long]
                   (PathStorage_ctor 2 [(0, 0, 0)] [(4, 0, 0)])"

definition los_batch :: PathBatch where
  "los_batch = \<lparr>numPaths = 1,
     pathInfos = [\<lparr>txID = 0, rxID = 0, pathType = LineOfSight, numInteractions = 0, timeDelay = 1\<rparr>],
     in_interactions = [(0, 0, 0)], in_normals = [(0, 0, 0)],
     in_labels = [NOT 0], in_materials = [NOT 0]\<rparr>"

definition los_store :: PathStorage where
  "los_store = the (AddPaths_seq example_hasher [los_batch] (PathStorage_ctor 1 [(0, 0, 0)] [(4, 0, 0)]))"

text \<open>
  One transmitter, two receivers; two Specular paths on the link of receiver 0 and one
  line-of-sight path on the link of receiver 1.
\<close>

definition dense_batch :: PathBatch where
  "dense_batch = \<lparr>numPaths = 3,
     pathInfos = [\<lparr>txID = 0, rxID = 0, pathType = Specular, numInteractions = 1, timeDelay = 3\<rparr>,
                  \<lparr>txID = 0, rxID = 0, pathType = Specular, numInteractions = 1, timeDelay = 4\<rparr>,
                  \<lparr>txID = 0, rxID = 1, pathType = LineOfSight, numInteractions = 0, timeDelay = 1\<rparr>],
     in_interactions = [(1, 1, 0), (2, 1, 0), (0, 0, 0)],
     in_normals = [(0, 0, 1), (0, 0, 1), (0, 0, 0)],
     in_labels = [5, 6, NOT 0], in_materials = [7, 7, NOT 0]\<rparr>"

definition dense_store :: PathStorage where
  "dense_store = the (AddPaths_seq example_hasher [dense_batch]
                        (PathStorage_ctor 1 [(0, 0, 0)] [(4, 0, 0), (0, 4, 0)]))"

text \<open>
  Example parameters: the conversion truncates, every point lies in voxel 0, and the
  device state counts the calls of \<open>GenerateRayTracingData\<close>.
\<close>

definition example_externals :: "nat Externals" where
  "example_externals = \<lparr>float_to_uint = (\<lambda>x. of_int \<lfloor>x\<rfloor>), WorldToVoxelID = (\<lambda>p vw. 0),
     InvalidPointIndex = NOT 0, device_generate = (\<lambda>nodes idx bias vw n g. (Suc g, 0, True))\<rparr>"

definition example_points :: "PointData list" where
  "example_points = [\<lparr>pt_position = (0, 0, 0), pt_normal = (0, 0, 1), pt_label = 1, pt_material = 0\<rparr>,
                     \<lparr>pt_position = (1 / 2, 1 / 2, 1 / 2), pt_normal = (0, 0, 1), pt_label = 1, pt_material = 0\<rparr>]"

section \<open>Loops and vector accesses: basic facts\<close>

lemma rd_Some_iff [simp]: "rd xs i = Some v \<longleftrightarrow> i < length xs \<and> v = xs ! i"
  by (auto simp: rd_def)

lemma wr_Some_iff [simp]: "wr xs i v = Some ys \<longleftrightarrow> i < length xs \<and> ys = xs[i := v]"
  by (auto simp: wr_def)

lemma for_each_append:
  "for_each (xs @ ys) body s = (case for_each xs body s of None \<Rightarrow> None | Some s' \<Rightarrow> for_each ys body s')"
  by (induction xs arbitrary: s) (auto split: option.splits)

lemma for_each_snoc:
  "for_each (xs @ [x]) body s = (case for_each xs body s of None \<Rightarrow> None | Some s' \<Rightarrow> body x s')"
  by (simp add: for_each_append split: option.splits)

lemma for_each_invariant:
  assumes "for_each is body s = Some s'" and "P s"
    and "\<And>i t t'. i \<in> set is \<Longrightarrow> P t \<Longrightarrow> body i t = Some t' \<Longrightarrow> P t'"
  shows "P s'"
  using assms
proof (induction "is" arbitrary: s)
  case Nil
  then show ?case by simp
next
  case (Cons i "is")
  from Cons.prems(1) obtain t where t: "body i s = Some t" and r: "for_each is body t = Some s'"
    by (auto split: option.splits)
  have "P t" by (rule Cons.prems(3)[OF _ Cons.prems(2) t]) simp
  show ?case by (rule Cons.IH[OF r \<open>P t\<close>]) (rule Cons.prems(3), simp_all)
qed

lemma for_each_hist:
  assumes "for_each is body s = Some s'" and "Inv h s"
    and "\<And>i h t t'. i \<in> set is \<Longrightarrow> Inv h t \<Longrightarrow> body i t = Some t' \<Longrightarrow> Inv (h @ [g i]) t'"
  shows "Inv (h @ map g is) s'"
  using assms
proof (induction "is" arbitrary: s h)
  case Nil
  then show ?case by simp
next
  case (Cons i "is")
  from Cons.prems(1) obtain t where t: "body i s = Some t" and r: "for_each is body t = Some s'"
    by (auto split: option.splits)
  have "Inv (h @ [g i]) t" using Cons.prems(2,3) t by simp
  from Cons.IH[OF r this] Cons.prems(3) show ?case by simp
qed

lemma AddPath_cases:
  assumes "AddPath H b i s = Some s'"
  obtains (inserted) h where
      "i < length (pathInfos b)"
      "GetPathHash H (pathInfos b ! i) (in_labels b) (i * length (m_InteractionData s)) = Some h"
      "map_of (m_PathMap s) h = None"
      "insert_path b (pathInfos b ! i) (i * length (m_InteractionData s)) h s = Some s'"
  | (updated) h e where
      "i < length (pathInfos b)"
      "GetPathHash H (pathInfos b ! i) (in_labels b) (i * length (m_InteractionData s)) = Some h"
      "map_of (m_PathMap s) h = Some e"
      "timeDelay (pathInfos b ! i) < entry_timeDelay e"
      "update_path b (pathInfos b ! i) (i * length (m_InteractionData s)) h e s = Some s'"
  | (discarded) h e where
      "i < length (pathInfos b)"
      "GetPathHash H (pathInfos b ! i) (in_labels b) (i * length (m_InteractionData s)) = Some h"
      "map_of (m_PathMap s) h = Some e"
      "\<not> timeDelay (pathInfos b ! i) < entry_timeDelay e"
      "s' = s"
proof -
  from assms have "\<exists>pinfo. rd (pathInfos b) i = Some pinfo \<and> (\<exists>h.
      GetPathHash H pinfo (in_labels b) (i * length (m_InteractionData s)) = Some h \<and>
      (case map_of (m_PathMap s) h of
          None \<Rightarrow> insert_path b pinfo (i * length (m_InteractionData s)) h s
        | Some e \<Rightarrow> if entry_timeDelay e > timeDelay pinfo
            then update_path b pinfo (i * length (m_InteractionData s)) h e s
            else Some s) = Some s')"
    unfolding AddPath_def Let_def Option.bind_eq_Some_conv .
  then obtain h where
    i: "i < length (pathInfos b)" and
    h: "GetPathHash H (pathInfos b ! i) (in_labels b) (i * length (m_InteractionData s)) = Some h" and
    r: "(case map_of (m_PathMap s) h of
          None \<Rightarrow> insert_path b (pathInfos b ! i) (i * length (m_InteractionData s)) h s
        | Some e \<Rightarrow> if entry_timeDelay e > timeDelay (pathInfos b ! i)
            then update_path b (pathInfos b ! i) (i * length (m_InteractionData s)) h e s
            else Some s) = Some s'"
    unfolding rd_Some_iff by blast
  show thesis
  proof (cases "map_of (m_PathMap s) h")
    case None
    with r have "insert_path b (pathInfos b ! i) (i * length (m_InteractionData s)) h s = Some s'"
      by simp
    from inserted[OF i h None this] show ?thesis .
  next
    case (Some e)
    show ?thesis
    proof (cases "timeDelay (pathInfos b ! i) < entry_timeDelay e")
      case True
      with r Some have "update_path b (pathInfos b ! i) (i * length (m_InteractionData s)) h e s = Some s'"
        by simp
      from updated[OF i h Some True this] show ?thesis .
    next
      case False
      with r Some have "s' = s" by simp
      from discarded[OF i h Some False this] show ?thesis .
    qed
  qed
qed

lemma append_slot_Some:
  assumes "append_slot b pinfo di ia d = Some d'"
  shows "ia < length d \<and> d' = d[ia := pushed b pinfo di ia (d ! ia)]"
  using assms unfolding append_slot_def pushed_def
  by (auto simp: Option.bind_eq_Some_conv split: if_splits)

lemma overwrite_slot_Some:
  assumes "overwrite_slot b di p ia d = Some d'"
  shows "ia < length d \<and> d' = d[ia := overwritten b di p ia (d ! ia)] \<and>
         p < length (interactions (d ! ia)) \<and> p < length (normals (d ! ia)) \<and>
         p < length (labels (d ! ia)) \<and> p < length (materials (d ! ia)) \<and>
         di + ia < length (in_interactions b) \<and> di + ia < length (in_normals b) \<and>
         di + ia < length (in_labels b) \<and> di + ia < length (in_materials b)"
  using assms unfolding overwrite_slot_def overwritten_def
  by (auto simp: Option.bind_eq_Some_conv)

lemma append_loop:
  assumes "for_each [0..<m] (append_slot b pinfo di) d = Some d'"
  shows "length d' = length d \<and> m \<le> length d \<and>
         (\<forall>ia<length d. d' ! ia = (if ia < m then pushed b pinfo di ia (d ! ia) else d ! ia))"
  using assms
proof (induction m arbitrary: d')
  case 0
  then show ?case by simp
next
  case (Suc m)
  from Suc.prems obtain d1 where d1: "for_each [0..<m] (append_slot b pinfo di) d = Some d1"
    and st: "append_slot b pinfo di m d1 = Some d'"
    by (auto simp: for_each_snoc split: option.splits)
  from Suc.IH[OF d1] append_slot_Some[OF st] show ?case
    by (auto simp: nth_list_update)
qed

lemma overwrite_loop:
  assumes "for_each [0..<m] (overwrite_slot b di p) d = Some d'"
  shows "length d' = length d \<and> m \<le> length d \<and>
         (\<forall>ia<length d. d' ! ia = (if ia < m then overwritten b di p ia (d ! ia) else d ! ia)) \<and>
         (\<forall>ia<m. p < length (interactions (d ! ia)) \<and> p < length (normals (d ! ia)) \<and>
                  p < length (labels (d ! ia)) \<and> p < length (materials (d ! ia)))"
  using assms
proof (induction m arbitrary: d')
  case 0
  then show ?case by simp
next
  case (Suc m)
  from Suc.prems obtain d1 where d1: "for_each [0..<m] (overwrite_slot b di p) d = Some d1"
    and st: "overwrite_slot b di p m d1 = Some d'"
    by (auto simp: for_each_snoc split: option.splits)
  from Suc.IH[OF d1] overwrite_slot_Some[OF st] show ?case
    by (auto simp: nth_list_update less_Suc_eq)
qed

lemma insert_path_Some:
  assumes "insert_path b pinfo di h s = Some s'"
  shows "for_each [0..<length (m_InteractionData s)] (append_slot b pinfo di) (m_InteractionData s)
           = Some (m_InteractionData s')"
    and "link_of s (rxID pinfo) (txID pinfo) < length (m_PathCounts s)"
    and "m_PathMap s' = m_PathMap s @ [(h, \<lparr>entry_timeDelay = timeDelay pinfo,
                                           entry_pathIndex = of_nat (length (m_PathMap s))\<rparr>)]"
    and "m_PathCounts s' = (m_PathCounts s)[link_of s (rxID pinfo) (txID pinfo) :=
           (m_PathCounts s ! link_of s (rxID pinfo) (txID pinfo))
             (GetSionnaPathType (pathType pinfo) :=
                (m_PathCounts s ! link_of s (rxID pinfo) (txID pinfo)) (GetSionnaPathType (pathType pinfo)) + 1)]"
    and "m_MaxLinkPaths s' = (m_MaxLinkPaths s)(GetSionnaPathType (pathType pinfo) :=
           max (m_MaxLinkPaths s (GetSionnaPathType (pathType pinfo)))
               ((m_PathCounts s ! link_of s (rxID pinfo) (txID pinfo)) (GetSionnaPathType (pathType pinfo)) + 1))"
    and "m_TimeDelays s' = m_TimeDelays s @ [timeDelay pinfo]"
    and "m_TxIDs s' = m_TxIDs s @ [txID pinfo]"
    and "m_RxIDs s' = m_RxIDs s @ [rxID pinfo]"
    and "m_PathTypes s' = m_PathTypes s @ [pathType pinfo]"
    and "m_NumInteractions s' = m_NumInteractions s @ [numInteractions pinfo]"
    and "m_Transmitters s' = m_Transmitters s"
    and "m_Receivers s' = m_Receivers s"
    and "m_MaxNumInteractions s' = m_MaxNumInteractions s"
  using assms unfolding insert_path_def link_of_def Let_def Option.bind_eq_Some_conv rd_Some_iff
  by auto

lemma update_path_Some:
  assumes "update_path b pinfo di h e s = Some s'"
  shows "for_each [0..<numInteractions pinfo] (overwrite_slot b di (unat (entry_pathIndex e)))
           (m_InteractionData s) = Some (m_InteractionData s')"
    and "unat (entry_pathIndex e) < length (m_TimeDelays s)"
    and "unat (entry_pathIndex e) < length (m_NumInteractions s)"
    and "m_PathMap s' = AList.update h (e\<lparr>entry_timeDelay := timeDelay pinfo\<rparr>) (m_PathMap s)"
    and "m_TimeDelays s' = (m_TimeDelays s)[unat (entry_pathIndex e) := timeDelay pinfo]"
    and "m_NumInteractions s' = (m_NumInteractions s)[unat (entry_pathIndex e) := numInteractions pinfo]"
    and "m_PathCounts s' = m_PathCounts s"
    and "m_MaxLinkPaths s' = m_MaxLinkPaths s"
    and "m_TxIDs s' = m_TxIDs s"
    and "m_RxIDs s' = m_RxIDs s"
    and "m_PathTypes s' = m_PathTypes s"
    and "m_Transmitters s' = m_Transmitters s"
    and "m_Receivers s' = m_Receivers s"
    and "m_MaxNumInteractions s' = m_MaxNumInteractions s"
  using assms unfolding update_path_def Let_def Option.bind_eq_Some_conv wr_Some_iff
  by auto

section \<open>Evaluation of the examples\<close>

lemma for_each_upt:
  "for_each [i..<j] body s =
     (if i < j then (case body i s of None \<Rightarrow> None | Some s' \<Rightarrow> for_each [Suc i..<j] body s') else Some s)"
  by (simp add: upt_conv_Cons)

lemmas eval_defs = for_each_upt AddPaths_def AddPath_def insert_path_def update_path_def
  append_slot_def overwrite_slot_def GetPathHash_def rd_def wr_def PathStorage_ctor_def
  example_hasher_def example_batch_def example_batch_faster_def example_store_def Let_def
  empty_InteractionData_def

section \<open>Claims about the compact exporter\<close>

text \<open>
  C10: for every store, the \<open>maxLinkPaths\<close> field of the record returned by
  \<open>ToPathData\<close> is 0, whatever the per-link counts are.
\<close>

theorem ToPathData_maxLinkPaths_zero: "pd_maxLinkPaths (fst (ToPathData s)) = 0"
proof -
  have "pd_maxLinkPaths (foldl (\<lambda>dat i. insert_slot d i dat) dat0 is) = pd_maxLinkPaths dat0"
    for d dat0 "is"
    by (induction "is" arbitrary: dat0) (simp_all add: insert_slot_def)
  then show ?thesis by (simp add: ToPathData_def Let_def)
qed

text \<open>
  C8: \<open>ToPathData\<close> leaves the store as it found it (the per-link counters included),
  and a second call on the store it leaves returns the same record.
\<close>

theorem ToPathData_read_only_idempotent:
  "snd (ToPathData s) = s \<and>
   m_PathCounts (snd (ToPathData s)) = m_PathCounts s \<and>
   fst (ToPathData (snd (ToPathData s))) = fst (ToPathData s)"
  by (simp add: ToPathData_def Let_def)

section \<open>The per-link counter table\<close>

text \<open>
  C2: the table of per-link counters has \<open>txCount + rxCount\<close> rows and is indexed with
  \<open>rxID * txCount + txID\<close>. The claim is that the index is in range for every
  \<open>txID < txCount\<close> and \<open>rxID < rxCount\<close>. With three transmitters and three receivers
  the table has 6 rows, and the first candidate on link (receiver 2, transmitter 2) updates
  row 8: the access of line 61 is out of range, whatever the hash functions are.
\<close>

theorem PathCounts_index_out_of_range:
  "length (m_PathCounts (PathStorage_ctor 0 [t0, t1, t2] [r0, r1, r2])) = 6 \<and>
   unat (2 :: u32) * length [t0, t1, t2] + unat (2 :: u32) = 8 \<and>
   AddPaths H
     \<lparr>numPaths = 1,
      pathInfos = [\<lparr>txID = 2, rxID = 2, pathType = LineOfSight, numInteractions = 0, timeDelay = 1\<rparr>],
      in_interactions = [], in_normals = [], in_labels = [], in_materials = []\<rparr>
     (PathStorage_ctor 0 [t0, t1, t2] [r0, r1, r2]) = None"
  by (simp add: AddPaths_def AddPath_def insert_path_def PathStorage_ctor_def GetPathHash_def
      rd_def wr_def for_each_upt)

section \<open>Stable indexing\<close>

lemma extends_refl: "extends s s"
  by (simp add: extends_def)

lemma extendsD:
  assumes "extends s s'"
  shows "\<exists>xs. m_TxIDs s' = m_TxIDs s @ xs" "\<exists>xs. m_RxIDs s' = m_RxIDs s @ xs"
    "\<exists>xs. m_PathTypes s' = m_PathTypes s @ xs"
    "\<exists>xs. map fst (m_PathMap s') = map fst (m_PathMap s) @ xs"
    "\<And>k e. map_of (m_PathMap s) k = Some e \<Longrightarrow>
        \<exists>e'. map_of (m_PathMap s') k = Some e' \<and> entry_pathIndex e' = entry_pathIndex e"
  using assms unfolding extends_def by blast+




lemma map_fst_update_present:
  "map_of al k = Some v \<Longrightarrow> map fst (AList.update k v' al) = map fst al"
  by (induction al) (auto split: if_splits)

lemma AddPath_extends:
  assumes "AddPath H b i s = Some s'"
  shows "extends s s'"
  using assms
proof (cases rule: AddPath_cases)
  case (inserted h)
  note ins = insert_path_Some[OF inserted(4)]
  show ?thesis unfolding extends_def ins using inserted(3)
    by (auto simp: map_add_Some_iff)
next
  case (updated h e)
  note upd = update_path_Some[OF updated(5)]
  show ?thesis unfolding extends_def upd using updated(3)
    by (auto simp: update_conv' map_fst_update_present)
next
  case (discarded h e)
  then show ?thesis by (simp add: extends_refl)
qed





section \<open>Deduplication and the minimum time delay\<close>

lemma hash_loop:
  assumes "for_each [0..<n] (\<lambda>i h. do { l \<leftarrow> rd lbls (di + i); Some (CombineHash H h l) }) h0 = Some h"
  shows "h = foldl (CombineHash H) h0 (take n (drop di lbls)) \<and> (n = 0 \<or> di + n \<le> length lbls)"
  using assms
proof (induction n arbitrary: h)
  case 0
  then show ?case by simp
next
  case (Suc n)
  from Suc.prems obtain h1 where
    h1: "for_each [0..<n] (\<lambda>i h. do { l \<leftarrow> rd lbls (di + i); Some (CombineHash H h l) }) h0 = Some h1"
    and st: "di + n < length lbls" "h = CombineHash H h1 (lbls ! (di + n))"
    by (auto simp: for_each_snoc Option.bind_eq_Some_conv split: option.splits)
  from Suc.IH[OF h1] have h1eq: "h1 = foldl (CombineHash H) h0 (take n (drop di lbls))" by simp
  from st(1) have "take (Suc n) (drop di lbls) = take n (drop di lbls) @ [lbls ! (di + n)]"
    by (simp add: take_Suc_conv_app_nth)
  with h1eq st show ?case by simp
qed

lemma GetPathHash_Some:
  assumes "GetPathHash H pinfo lbls di = Some h"
  shows "h = path_key H pinfo lbls di"
  using hash_loop[OF assms[unfolded GetPathHash_def]] by (simp add: path_key_def)

lemma delays_of_snoc:
  "delays_of (cands @ [c]) k = delays_of cands k @ (if fst c = k then [timeDelay (snd c)] else [])"
  by (simp add: delays_of_def)

lemma delays_of_empty_iff: "delays_of cands k = [] \<longleftrightarrow> k \<notin> set (map fst cands)"
  by (auto simp: delays_of_def filter_empty_conv)

lemma map_of_None_iff_keys: "map_of al k = None \<longleftrightarrow> k \<notin> set (map fst al)"
  by (simp add: map_of_eq_None_iff)

lemma Min_snoc:
  fixes t :: real
  assumes "xs \<noteq> []"
  shows "Min (set (xs @ [t])) = min t (Min (set xs))"
  using assms by simp

lemma Min_snoc_less:
  fixes t :: real
  assumes "xs \<noteq> []" and "t < Min (set xs)"
  shows "Min (set (xs @ [t])) = t"
proof -
  have "Min (set (xs @ [t])) = min t (Min (set xs))" by (rule Min_snoc[OF assms(1)])
  also from assms(2) have "\<dots> = t" by (metis min.absorb1 less_imp_le)
  finally show ?thesis .
qed

lemma Min_snoc_ge:
  fixes t :: real
  assumes "xs \<noteq> []" and "\<not> t < Min (set xs)"
  shows "Min (set (xs @ [t])) = Min (set xs)"
proof -
  have "Min (set (xs @ [t])) = min t (Min (set xs))" by (rule Min_snoc[OF assms(1)])
  also from assms(2) have "\<dots> = Min (set xs)" by (metis min.absorb2 not_less)
  finally show ?thesis .
qed

lemma delays_of_snoc_same:
  "delays_of (cands @ [(k, p)]) k = delays_of cands k @ [timeDelay p]"
  by (simp add: delays_of_snoc)

lemma delays_of_snoc_other:
  "k' \<noteq> k \<Longrightarrow> delays_of (cands @ [(k, p)]) k' = delays_of cands k'"
  by (simp add: delays_of_snoc)

lemma length_update_present:
  assumes "map_of al k = Some v"
  shows "length (AList.update k v' al) = length al"
  using map_fst_update_present[OF assms, of v'] by (metis length_map)

lemma keys_inv_ctor: "keys_inv maxIa [] (PathStorage_ctor maxIa txs rxs)"
  by (simp add: keys_inv_def PathStorage_ctor_def)

lemma AddPath_keys_inv:
  assumes step: "AddPath H b i s = Some s'" and inv: "keys_inv maxIa cands s"
  shows "keys_inv maxIa (cands @ [(path_key H (pathInfos b ! i) (in_labels b) (i * maxIa), pathInfos b ! i)]) s'"
proof -
  let ?p = "pathInfos b ! i"
  let ?k = "path_key H ?p (in_labels b) (i * maxIa)"
  from inv have len: "length (m_InteractionData s) = maxIa"
    and dist: "distinct (map fst (m_PathMap s))"
    and keys: "set (map fst (m_PathMap s)) = set (map fst cands)"
    and tds: "length (m_TimeDelays s) = length (m_PathMap s)"
    and mins: "\<And>k e. map_of (m_PathMap s) k = Some e \<Longrightarrow> entry_timeDelay e = Min (set (delays_of cands k))"
    unfolding keys_inv_def by blast+
  from step show ?thesis
  proof (cases rule: AddPath_cases)
    case (inserted h)
    note ins = insert_path_Some[OF inserted(4)]
    from GetPathHash_Some[OF inserted(2)] len have h: "h = ?k" by simp
    from inserted(3) have hnew: "h \<notin> set (map fst (m_PathMap s))" by (simp add: map_of_None_iff_keys)
    with keys have dnew: "delays_of cands h = []" by (simp add: delays_of_empty_iff)
    from append_loop[OF ins(1)] len have l': "length (m_InteractionData s') = maxIa" by simp
    have d': "distinct (map fst (m_PathMap s'))" using dist hnew by (simp add: ins(3))
    have k': "set (map fst (m_PathMap s')) = set (map fst (cands @ [(?k, ?p)]))"
      using keys h by (simp add: ins(3))
    have t': "length (m_TimeDelays s') = length (m_PathMap s')" using tds by (simp add: ins(3,6))
    have m': "entry_timeDelay e = Min (set (delays_of (cands @ [(?k, ?p)]) k))"
      if "map_of (m_PathMap s') k = Some e" for k e
    proof (cases "k = h")
      case True
      with that inserted(3) have "entry_timeDelay e = timeDelay ?p"
        by (auto simp: ins(3) map_add_Some_iff)
      with True h dnew show ?thesis by (simp add: delays_of_snoc_same)
    next
      case False
      with that have "map_of (m_PathMap s) k = Some e"
        by (auto simp: ins(3) map_add_Some_iff)
      from mins[OF this] False h show ?thesis by (simp add: delays_of_snoc_other)
    qed
    show ?thesis unfolding keys_inv_def using l' d' k' t' m' by blast
  next
    case (updated h e)
    note upd = update_path_Some[OF updated(5)]
    from GetPathHash_Some[OF updated(2)] len have h: "h = ?k" by simp
    from updated(3) have hin: "h \<in> set (map fst (m_PathMap s))"
      by (metis map_of_None_iff_keys option.distinct(1))
    with keys have dne: "delays_of cands h \<noteq> []" by (simp add: delays_of_empty_iff)
    from overwrite_loop[OF upd(1)] len have l': "length (m_InteractionData s') = maxIa" by simp
    have d': "distinct (map fst (m_PathMap s'))" using dist by (simp add: upd(4) distinct_update)
    have k': "set (map fst (m_PathMap s')) = set (map fst (cands @ [(?k, ?p)]))"
      using keys h hin by (auto simp: upd(4) update_keys)
    have t': "length (m_TimeDelays s') = length (m_PathMap s')"
      using tds by (simp add: upd(4,5) length_update_present[OF updated(3)])
    have m': "entry_timeDelay e' = Min (set (delays_of (cands @ [(?k, ?p)]) k))"
      if "map_of (m_PathMap s') k = Some e'" for k e'
    proof (cases "k = h")
      case True
      with that have "entry_timeDelay e' = timeDelay ?p" by (auto simp: upd(4) update_conv')
      moreover from mins[OF updated(3)] updated(4) have "timeDelay ?p < Min (set (delays_of cands h))" by simp
      from Min_snoc_less[OF dne this] have "Min (set (delays_of (cands @ [(h, ?p)]) h)) = timeDelay ?p"
        by (simp only: delays_of_snoc_same)
      ultimately show ?thesis using True h by simp
    next
      case False
      with that have "map_of (m_PathMap s) k = Some e'" by (auto simp: upd(4) update_conv')
      from mins[OF this] False h show ?thesis by (simp add: delays_of_snoc_other)
    qed
    show ?thesis unfolding keys_inv_def using l' d' k' t' m' by blast
  next
    case (discarded h e)
    from GetPathHash_Some[OF discarded(2)] len have h: "h = ?k" by simp
    from discarded(3) have hin: "h \<in> set (map fst (m_PathMap s))"
      by (metis map_of_None_iff_keys option.distinct(1))
    with keys have dne: "delays_of cands h \<noteq> []" by (simp add: delays_of_empty_iff)
    have k': "set (map fst (m_PathMap s)) = set (map fst (cands @ [(?k, ?p)]))"
      using keys h hin by auto
    have m': "entry_timeDelay e' = Min (set (delays_of (cands @ [(?k, ?p)]) k))"
      if "map_of (m_PathMap s) k = Some e'" for k e'
    proof (cases "k = h")
      case True
      with that discarded(3) have "e' = e" by simp
      with mins[OF discarded(3)] discarded(4) have lt: "\<not> timeDelay ?p < Min (set (delays_of cands h))"
        and eq: "entry_timeDelay e' = Min (set (delays_of cands h))" by simp_all
      from Min_snoc_ge[OF dne lt]
      have "Min (set (delays_of (cands @ [(h, ?p)]) h)) = Min (set (delays_of cands h))"
        by (simp only: delays_of_snoc_same)
      with eq show ?thesis using True h by simp
    next
      case False
      from mins[OF that] False h show ?thesis by (simp add: delays_of_snoc_other)
    qed
    show ?thesis unfolding keys_inv_def \<open>s' = s\<close> using len dist k' tds m' by blast
  qed
qed

lemma AddPaths_keys_inv:
  assumes "AddPaths H b s = Some s'" and "keys_inv maxIa cands s"
  shows "keys_inv maxIa (cands @ batch_candidates H maxIa b) s'"
  unfolding batch_candidates_def
  by (rule for_each_hist[where Inv = "keys_inv maxIa", OF assms(1)[unfolded AddPaths_def] assms(2)])
     (rule AddPath_keys_inv)

lemma AddPaths_seq_keys_inv:
  assumes "AddPaths_seq H bs s = Some s'" and "keys_inv maxIa cands s"
  shows "keys_inv maxIa (cands @ all_candidates H maxIa bs) s'"
  using assms
proof (induction bs arbitrary: s cands)
  case Nil
  then show ?case by (simp add: all_candidates_def)
next
  case (Cons b bs)
  from Cons.prems(1) obtain t where t: "AddPaths H b s = Some t" and r: "AddPaths_seq H bs t = Some s'"
    by (auto split: option.splits)
  from Cons.IH[OF r AddPaths_keys_inv[OF t Cons.prems(2)]] show ?case
    by (simp add: all_candidates_def)
qed

lemma keys_inv_card:
  assumes "keys_inv maxIa cands s"
  shows "length (m_PathMap s) = card (set (map fst cands))"
proof -
  from assms have d: "distinct (map fst (m_PathMap s))"
    and k: "set (map fst (m_PathMap s)) = set (map fst cands)"
    unfolding keys_inv_def by blast+
  from d have "card (set (map fst (m_PathMap s))) = length (map fst (m_PathMap s))"
    by (rule distinct_card)
  with k show ?thesis by simp
qed

section \<open>Overwriting a retained path\<close>

lemma replicate_numeral: "replicate (numeral k) x = x # replicate (pred_numeral k) x"
  by (simp add: numeral_eq_Suc)

lemmas collide_defs = collide_batch_long_def collide_batch_short_def collide_run_def short_run_def
  replicate_numeral

text \<open>
  C5: when the candidate at \<open>pathIndex\<close> has a key that is already in the map, a strictly
  lower time delay than the stored one and fewer interactions than the count stored at
  the path's slot, the overwrite writes the four vectors of the interaction slots below
  the candidate's count at the path's slot index only, and leaves every interaction slot
  at or beyond the candidate's count as it was: nothing is reset to the sentinel.
\<close>

theorem overwrite_keeps_later_slots:
  assumes step: "AddPath H b i s = Some s'"
    and key: "GetPathHash H (pathInfos b ! i) (in_labels b) (i * length (m_InteractionData s)) = Some h"
    and found: "map_of (m_PathMap s) h = Some e"
    and faster: "timeDelay (pathInfos b ! i) < entry_timeDelay e"
    and shorter: "numInteractions (pathInfos b ! i) < m_NumInteractions s ! unat (entry_pathIndex e)"
  shows "length (m_InteractionData s') = length (m_InteractionData s) \<and>
         m_NumInteractions s' = (m_NumInteractions s)[unat (entry_pathIndex e) := numInteractions (pathInfos b ! i)] \<and>
         (\<forall>ia < length (m_InteractionData s).
            if ia < numInteractions (pathInfos b ! i)
            then interactions (m_InteractionData s' ! ia) =
                   (interactions (m_InteractionData s ! ia))
                     [unat (entry_pathIndex e) := in_interactions b ! (i * length (m_InteractionData s) + ia)] \<and>
                 normals (m_InteractionData s' ! ia) =
                   (normals (m_InteractionData s ! ia))
                     [unat (entry_pathIndex e) := in_normals b ! (i * length (m_InteractionData s) + ia)] \<and>
                 labels (m_InteractionData s' ! ia) =
                   (labels (m_InteractionData s ! ia))
                     [unat (entry_pathIndex e) := in_labels b ! (i * length (m_InteractionData s) + ia)] \<and>
                 materials (m_InteractionData s' ! ia) =
                   (materials (m_InteractionData s ! ia))
                     [unat (entry_pathIndex e) := in_materials b ! (i * length (m_InteractionData s) + ia)]
            else m_InteractionData s' ! ia = m_InteractionData s ! ia)"
  using step
proof (cases rule: AddPath_cases)
  case (inserted h')
  with key found show ?thesis by simp
next
  case (updated h' e')
  with key found have eq: "h' = h" "e' = e" by simp_all
  note upd = update_path_Some[OF updated(5)[unfolded eq]]
  from overwrite_loop[OF upd(1)] upd(6) show ?thesis
    by (simp add: overwritten_def)
next
  case (discarded h' e')
  with key found faster show ?thesis by simp
qed

theorem overwrite_keeps_later_slots_witness:
  "long_run \<noteq> None \<and>
   AddPath example_hasher collide_batch_short 0 (the long_run) = Some (the collide_run) \<and>
   GetPathHash example_hasher (pathInfos collide_batch_short ! 0) (in_labels collide_batch_short)
     (0 * length (m_InteractionData (the long_run))) = Some 0 \<and>
   map_of (m_PathMap (the long_run)) 0 = Some \<lparr>entry_timeDelay = 3, entry_pathIndex = 0\<rparr> \<and>
   timeDelay (pathInfos collide_batch_short ! 0) < 3 \<and>
   numInteractions (pathInfos collide_batch_short ! 0) = 1 \<and>
   m_NumInteractions (the long_run) ! 0 = 2 \<and>
   m_NumInteractions (the collide_run) = [1] \<and>
   m_InteractionData (the collide_run) ! 1 = m_InteractionData (the long_run) ! 1 \<and>
   labels (m_InteractionData (the collide_run) ! 1) = [0] \<and>
   materials (m_InteractionData (the collide_run) ! 1) = [9]"
proof -
  let ?s = "the long_run"
  let ?s' = "the collide_run"
  let ?e = "\<lparr>entry_timeDelay = 3, entry_pathIndex = 0 :: u32\<rparr>"
  have 0: "long_run \<noteq> None" by (simp add: long_run_def collide_defs eval_defs)
  have 1: "AddPath example_hasher collide_batch_short 0 ?s = Some ?s'"
    by (simp add: long_run_def collide_defs eval_defs)
  have 2: "GetPathHash example_hasher (pathInfos collide_batch_short ! 0) (in_labels collide_batch_short)
     (0 * length (m_InteractionData ?s)) = Some 0"
    by (simp add: long_run_def collide_defs eval_defs)
  have 3: "map_of (m_PathMap ?s) 0 = Some ?e"
    by (simp add: long_run_def collide_defs eval_defs)
  have 4: "timeDelay (pathInfos collide_batch_short ! 0) < entry_timeDelay ?e"
    by (simp add: collide_defs)
  have 5: "numInteractions (pathInfos collide_batch_short ! 0) < m_NumInteractions ?s ! unat (entry_pathIndex ?e)"
    by (simp add: long_run_def collide_defs eval_defs)
  have 6: "length (m_InteractionData ?s) = 2" "numInteractions (pathInfos collide_batch_short ! 0) = 1"
    "m_NumInteractions ?s ! 0 = 2" "labels (m_InteractionData ?s ! 1) = [0]"
    "materials (m_InteractionData ?s ! 1) = [9]" "m_NumInteractions ?s = [2]"
    by (simp_all add: long_run_def collide_defs eval_defs)
  from overwrite_keeps_later_slots[OF 1 2 3 4 5]
  have a: "m_NumInteractions ?s' = (m_NumInteractions ?s)[unat (entry_pathIndex ?e) := numInteractions (pathInfos collide_batch_short ! 0)]"
    and b: "\<forall>ia < length (m_InteractionData ?s).
            if ia < numInteractions (pathInfos collide_batch_short ! 0)
            then interactions (m_InteractionData ?s' ! ia) =
                   (interactions (m_InteractionData ?s ! ia))
                     [unat (entry_pathIndex ?e) := in_interactions collide_batch_short ! (0 * length (m_InteractionData ?s) + ia)] \<and>
                 normals (m_InteractionData ?s' ! ia) =
                   (normals (m_InteractionData ?s ! ia))
                     [unat (entry_pathIndex ?e) := in_normals collide_batch_short ! (0 * length (m_InteractionData ?s) + ia)] \<and>
                 labels (m_InteractionData ?s' ! ia) =
                   (labels (m_InteractionData ?s ! ia))
                     [unat (entry_pathIndex ?e) := in_labels collide_batch_short ! (0 * length (m_InteractionData ?s) + ia)] \<and>
                 materials (m_InteractionData ?s' ! ia) =
                   (materials (m_InteractionData ?s ! ia))
                     [unat (entry_pathIndex ?e) := in_materials collide_batch_short ! (0 * length (m_InteractionData ?s) + ia)]
            else m_InteractionData ?s' ! ia = m_InteractionData ?s ! ia"
    by blast+
  from b[rule_format, of 1] 6 have c: "m_InteractionData ?s' ! 1 = m_InteractionData ?s ! 1" by simp
  from a 6 have d: "m_NumInteractions ?s' = [1]" by simp
  from 0 1 2 3 4 6 c d show ?thesis by simp
qed

section \<open>Shape of the store\<close>

lemma shape_inv_ctor: "shape_inv (PathStorage_ctor maxIa txs rxs)"
  by (simp add: shape_inv_def PathStorage_ctor_def empty_InteractionData_def)

lemma update_at_position:
  assumes "map_of al k = Some e"
  shows "\<exists>j < length al. al ! j = (k, e) \<and> AList.update k v al = al[j := (k, v)]"
  using assms
proof (induction al)
  case Nil
  then show ?case by simp
next
  case (Cons a al)
  show ?case
  proof (cases "fst a = k")
    case True
    with Cons.prems have "a = (k, e)" by (cases a) simp
    then have "(a # al) ! 0 = (k, e) \<and> AList.update k v (a # al) = (a # al)[0 := (k, v)]" by simp
    then show ?thesis by blast
  next
    case False
    with Cons.prems have "map_of al k = Some e" by (cases a) simp
    from Cons.IH[OF this] obtain j where j: "j < length al" "al ! j = (k, e)"
      "AList.update k v al = al[j := (k, v)]" by blast
    with False have "Suc j < length (a # al) \<and> (a # al) ! Suc j = (k, e) \<and>
        AList.update k v (a # al) = (a # al)[Suc j := (k, v)]"
      by (cases a) simp
    then show ?thesis by blast
  qed
qed

lemma AddPath_shape_inv:
  assumes step: "AddPath H b i s = Some s'" and inv: "shape_inv s"
  shows "shape_inv s'"
  using step
proof (cases rule: AddPath_cases)
  case (inserted h)
  note ins = insert_path_Some[OF inserted(4)]
  note lp = append_loop[OF ins(1)]
  from inv have ia: "\<And>ia. ia < length (m_InteractionData s) \<Longrightarrow>
        length (interactions (m_InteractionData s ! ia)) = length (m_TxIDs s) \<and>
        length (normals (m_InteractionData s ! ia)) = length (m_TxIDs s) \<and>
        length (labels (m_InteractionData s ! ia)) = length (m_TxIDs s) \<and>
        length (materials (m_InteractionData s ! ia)) = length (m_TxIDs s)"
    unfolding shape_inv_def by blast
  have a: "\<forall>ia < length (m_InteractionData s').
        length (interactions (m_InteractionData s' ! ia)) = length (m_TxIDs s') \<and>
        length (normals (m_InteractionData s' ! ia)) = length (m_TxIDs s') \<and>
        length (labels (m_InteractionData s' ! ia)) = length (m_TxIDs s') \<and>
        length (materials (m_InteractionData s' ! ia)) = length (m_TxIDs s')"
    using lp ia by (simp add: ins(7) pushed_def)
  have b: "\<forall>i < length (m_PathMap s'). entry_pathIndex (snd (m_PathMap s' ! i)) = of_nat i"
    using inv unfolding shape_inv_def ins(3) by (simp add: nth_append less_Suc_eq)
  from inv lp a b show ?thesis
    unfolding shape_inv_def by (simp add: ins(3,6,7,8,9,10,13))
next
  case (updated h e)
  note upd = update_path_Some[OF updated(5)]
  note lp = overwrite_loop[OF upd(1)]
  from update_at_position[OF updated(3)] obtain j where j: "j < length (m_PathMap s)"
    "m_PathMap s ! j = (h, e)"
    "m_PathMap s' = (m_PathMap s)[j := (h, e\<lparr>entry_timeDelay := timeDelay (pathInfos b ! i)\<rparr>)]"
    unfolding upd(4) by blast
  from inv have ia: "\<And>ia. ia < length (m_InteractionData s) \<Longrightarrow>
        length (interactions (m_InteractionData s ! ia)) = length (m_TxIDs s) \<and>
        length (normals (m_InteractionData s ! ia)) = length (m_TxIDs s) \<and>
        length (labels (m_InteractionData s ! ia)) = length (m_TxIDs s) \<and>
        length (materials (m_InteractionData s ! ia)) = length (m_TxIDs s)"
    and ix: "\<And>i. i < length (m_PathMap s) \<Longrightarrow> entry_pathIndex (snd (m_PathMap s ! i)) = of_nat i"
    unfolding shape_inv_def by blast+
  have a: "\<forall>ia < length (m_InteractionData s').
        length (interactions (m_InteractionData s' ! ia)) = length (m_TxIDs s') \<and>
        length (normals (m_InteractionData s' ! ia)) = length (m_TxIDs s') \<and>
        length (labels (m_InteractionData s' ! ia)) = length (m_TxIDs s') \<and>
        length (materials (m_InteractionData s' ! ia)) = length (m_TxIDs s')"
    using lp ia by (simp add: upd(9) overwritten_def)
  have b: "\<forall>i < length (m_PathMap s'). entry_pathIndex (snd (m_PathMap s' ! i)) = of_nat i"
  proof -
    from ix[OF j(1)] j(2) have "entry_pathIndex e = of_nat j" by simp
    with ix j(1) show ?thesis unfolding j(3) by (auto simp: nth_list_update)
  qed
  from inv lp a b show ?thesis
    unfolding shape_inv_def by (simp add: j(3) upd(5,6,9,10,11,14))
next
  case (discarded h e)
  with inv show ?thesis by simp
qed

lemma consistent_counts_prefix: "consistent_counts (xs @ ys) \<Longrightarrow> consistent_counts xs"
  by (auto simp: consistent_counts_def)

lemma sentinel_inv_ctor: "sentinel_inv [] (PathStorage_ctor maxIa txs rxs)"
  by (simp add: sentinel_inv_def PathStorage_ctor_def)

lemma unat_of_nat_small:
  assumes "j < 2 ^ 32"
  shows "unat (of_nat j :: u32) = j"
  using assms by (simp add: unat_of_nat)

lemma AddPath_sentinel_inv:
  assumes step: "AddPath H b i s = Some s'"
    and keys: "keys_inv maxIa cands s"
    and shape: "shape_inv s"
    and sent: "sentinel_inv cands s"
    and cons: "consistent_counts (cands @ [(path_key H (pathInfos b ! i) (in_labels b) (i * maxIa), pathInfos b ! i)])"
    and small: "length (m_PathMap s') \<le> 2 ^ 32"
  shows "sentinel_inv (cands @ [(path_key H (pathInfos b ! i) (in_labels b) (i * maxIa), pathInfos b ! i)]) s'"
proof -
  let ?p = "pathInfos b ! i"
  let ?k = "path_key H ?p (in_labels b) (i * maxIa)"
  let ?n = "numInteractions ?p"
  let ?N = "length (m_TxIDs s)"
  let ?d = "m_InteractionData s"
  from keys have len: "length ?d = maxIa"
    and dist: "distinct (map fst (m_PathMap s))"
    and kset: "set (map fst (m_PathMap s)) = set (map fst cands)"
    unfolding keys_inv_def by blast+
  from shape have lmap: "length (m_PathMap s) = ?N" and lni: "length (m_NumInteractions s) = ?N"
    and ll: "\<And>ia. ia < length ?d \<Longrightarrow> length (labels (?d ! ia)) = ?N"
    and lm: "\<And>ia. ia < length ?d \<Longrightarrow> length (materials (?d ! ia)) = ?N"
    and ix: "\<And>i. i < length (m_PathMap s) \<Longrightarrow> entry_pathIndex (snd (m_PathMap s ! i)) = of_nat i"
    unfolding shape_inv_def by blast+
  from sent have s1: "\<And>i c. i < length (m_PathMap s) \<Longrightarrow> c \<in> set cands \<Longrightarrow>
        fst c = fst (m_PathMap s ! i) \<Longrightarrow> m_NumInteractions s ! i = numInteractions (snd c)"
    and s3: "\<And>i ia. i < length (m_PathMap s) \<Longrightarrow> ia < length ?d \<Longrightarrow>
        m_NumInteractions s ! i \<le> ia \<Longrightarrow>
          labels (?d ! ia) ! i = NOT 0 \<and> materials (?d ! ia) ! i = NOT 0"
    unfolding sentinel_inv_def by blast+
  have c_new: "numInteractions (snd c) = ?n" if "c \<in> set cands" "fst c = ?k" for c
  proof -
    from that(1) have "c \<in> set (cands @ [(?k, ?p)])" "(?k, ?p) \<in> set (cands @ [(?k, ?p)])"
      by simp_all
    with cons that(2) have "numInteractions (snd c) = numInteractions (snd (?k, ?p))"
      unfolding consistent_counts_def by (metis fst_conv)
    then show ?thesis by simp
  qed
  from step show ?thesis
  proof (cases rule: AddPath_cases)
    case (inserted h)
    note ins = insert_path_Some[OF inserted(4)]
    note lp = append_loop[OF ins(1)]
    from GetPathHash_Some[OF inserted(2)] len have h: "h = ?k" by simp
    from inserted(3) have hnew: "h \<notin> set (map fst (m_PathMap s))" by (simp add: map_of_None_iff_keys)
    have p1: "m_NumInteractions s' ! j = numInteractions (snd c)"
      if "j < length (m_PathMap s')" "c \<in> set (cands @ [(?k, ?p)])" "fst c = fst (m_PathMap s' ! j)" for j c
    proof (cases "j < ?N")
      case True
      then have nth: "m_PathMap s' ! j = m_PathMap s ! j" "m_NumInteractions s' ! j = m_NumInteractions s ! j"
        using lmap lni by (simp_all add: ins(3,10) nth_append)
      from True lmap have "fst (m_PathMap s ! j) \<in> set (map fst (m_PathMap s))" by simp
      with hnew have "fst (m_PathMap s ! j) \<noteq> h" by metis
      with that(2,3) nth(1) h have "c \<in> set cands" by auto
      from s1[OF _ this] True lmap that(3) nth show ?thesis by simp
    next
      case False
      with that(1) lmap have j: "j = ?N" by (simp add: ins(3))
      then have at: "fst (m_PathMap s' ! j) = h" "m_NumInteractions s' ! j = ?n"
        using lmap lni by (simp_all add: ins(3,10) nth_append)
      have "numInteractions (snd c) = ?n"
      proof (cases "c \<in> set cands")
        case True
        from c_new[OF True] that(3) at(1) h show ?thesis by simp
      next
        case False
        with that(2) show ?thesis by simp
      qed
      with at show ?thesis by simp
    qed
    have p3: "labels (m_InteractionData s' ! ia) ! j = NOT 0 \<and> materials (m_InteractionData s' ! ia) ! j = NOT 0"
      if "j < length (m_PathMap s')" "ia < length (m_InteractionData s')" "m_NumInteractions s' ! j \<le> ia" for j ia
    proof -
      from that(2) lp have ia: "ia < length ?d" by simp
      with lp have d': "m_InteractionData s' ! ia = pushed b ?p (i * length ?d) ia (?d ! ia)" by simp
      show ?thesis
      proof (cases "j < ?N")
        case True
        then have "m_NumInteractions s' ! j = m_NumInteractions s ! j"
          using lni by (simp add: ins(10) nth_append)
        with that(3) s3[OF _ ia, of j] True lmap
        have "labels (?d ! ia) ! j = NOT 0 \<and> materials (?d ! ia) ! j = NOT 0" by simp
        with True ll[OF ia] lm[OF ia] show ?thesis by (simp add: d' pushed_def nth_append)
      next
        case False
        with that(1) lmap have j: "j = ?N" by (simp add: ins(3))
        then have "m_NumInteractions s' ! j = ?n" using lni by (simp add: ins(10) nth_append)
        with that(3) have "\<not> ia < ?n" by simp
        with j ll[OF ia] lm[OF ia] show ?thesis by (simp add: d' pushed_def nth_append)
      qed
    qed
    show ?thesis unfolding sentinel_inv_def using p1 p3 by blast
  next
    case (updated h e)
    note upd = update_path_Some[OF updated(5)]
    note lp = overwrite_loop[OF upd(1)]
    from GetPathHash_Some[OF updated(2)] len have h: "h = ?k" by simp
    from update_at_position[OF updated(3)] obtain j where j: "j < length (m_PathMap s)"
      "m_PathMap s ! j = (h, e)"
      "m_PathMap s' = (m_PathMap s)[j := (h, e\<lparr>entry_timeDelay := timeDelay ?p\<rparr>)]"
      unfolding upd(4) by blast
    from j(3) have lmap': "length (m_PathMap s') = length (m_PathMap s)" by simp
    with small j(1) have "j < 2 ^ 32" by simp
    moreover from ix[OF j(1)] j(2) have "entry_pathIndex e = of_nat j" by simp
    ultimately have pj: "unat (entry_pathIndex e) = j" by (simp add: unat_of_nat_small)
    have keys_same: "fst (m_PathMap s' ! l) = fst (m_PathMap s ! l)" if "l < length (m_PathMap s)" for l
      using that j(2) unfolding j(3) by (cases "l = j") (simp_all add: nth_list_update)
    have uniq: "l = j" if "l < length (m_PathMap s)" "fst (m_PathMap s ! l) = h" for l
    proof -
      from j(1,2) that have "map fst (m_PathMap s) ! l = map fst (m_PathMap s) ! j" by simp
      moreover from that(1) j(1) have "l < length (map fst (m_PathMap s))" "j < length (map fst (m_PathMap s))"
        by simp_all
      ultimately show ?thesis using dist nth_eq_iff_index_eq by blast
    qed
    from updated(3) have "h \<in> set (map fst (m_PathMap s))"
      by (metis map_of_None_iff_keys option.distinct(1))
    with kset obtain c0 where c0: "c0 \<in> set cands" "fst c0 = h" by auto
    from s1[OF j(1) c0(1)] c0(2) j(2) c_new[OF c0(1)] h
    have old: "m_NumInteractions s ! j = ?n" by simp
    have p1: "m_NumInteractions s' ! l = numInteractions (snd c)"
      if "l < length (m_PathMap s')" "c \<in> set (cands @ [(?k, ?p)])" "fst c = fst (m_PathMap s' ! l)" for l c
    proof -
      from that(1) lmap' have l: "l < length (m_PathMap s)" by simp
      from that(3) keys_same[OF l] have fc: "fst c = fst (m_PathMap s ! l)" by simp
      show ?thesis
      proof (cases "l = j")
        case True
        with fc j(2) have fh: "fst c = h" by simp
        have "numInteractions (snd c) = ?n"
        proof (cases "c \<in> set cands")
          case True
          from c_new[OF True] fh h show ?thesis by simp
        next
          case False
          with that(2) show ?thesis by simp
        qed
        moreover from \<open>l = j\<close> j(1) lmap lni have "m_NumInteractions s' ! l = ?n"
          by (simp add: upd(6) pj)
        ultimately show ?thesis by simp
      next
        case False
        with uniq[OF l] fc have "fst c \<noteq> h" by auto
        with that(2) h have "c \<in> set cands" by auto
        from s1[OF l this fc] False show ?thesis by (simp add: upd(6) pj)
      qed
    qed
    have p3: "labels (m_InteractionData s' ! ia) ! l = NOT 0 \<and> materials (m_InteractionData s' ! ia) ! l = NOT 0"
      if "l < length (m_PathMap s')" "ia < length (m_InteractionData s')" "m_NumInteractions s' ! l \<le> ia" for l ia
    proof -
      from that(1) lmap' have l: "l < length (m_PathMap s)" by simp
      from that(2) lp have ia: "ia < length ?d" by simp
      with lp have d': "m_InteractionData s' ! ia =
          (if ia < ?n then overwritten b (i * length ?d) (unat (entry_pathIndex e)) ia (?d ! ia) else ?d ! ia)"
        by simp
      show ?thesis
      proof (cases "l = j")
        case True
        with that(3) j(1) lmap lni have nia: "?n \<le> ia" by (simp add: upd(6) pj)
        with old True have "m_NumInteractions s ! l \<le> ia" by simp
        from s3[OF l ia this] nia show ?thesis by (simp add: d')
      next
        case False
        with that(3) have "m_NumInteractions s ! l \<le> ia" by (simp add: upd(6) pj)
        from s3[OF l ia this] False show ?thesis by (simp add: d' overwritten_def pj)
      qed
    qed
    show ?thesis unfolding sentinel_inv_def using p1 p3 by blast
  next
    case (discarded h e)
    from GetPathHash_Some[OF discarded(2)] len have h: "h = ?k" by simp
    have p1: "m_NumInteractions s ! l = numInteractions (snd c)"
      if "l < length (m_PathMap s)" "c \<in> set (cands @ [(?k, ?p)])" "fst c = fst (m_PathMap s ! l)" for l c
    proof (cases "c \<in> set cands")
      case True
      from s1[OF that(1) True that(3)] show ?thesis .
    next
      case False
      with that(2) have c: "c = (?k, ?p)" by simp
      from that(1) have "fst (m_PathMap s ! l) \<in> set (map fst (m_PathMap s))" by simp
      with kset that(3) c obtain c0 where c0: "c0 \<in> set cands" "fst c0 = ?k" by auto
      from s1[OF that(1) c0(1)] c0(2) that(3) c c_new[OF c0] show ?thesis by simp
    qed
    show ?thesis unfolding sentinel_inv_def \<open>s' = s\<close> using p1 s3 by blast
  qed
qed

lemma store_inv_ctor: "store_inv maxIa [] (PathStorage_ctor maxIa txs rxs)"
  by (simp add: store_inv_def keys_inv_ctor shape_inv_ctor sentinel_inv_ctor)

lemma extends_length_mono:
  assumes "extends s s'"
  shows "length (m_PathMap s) \<le> length (m_PathMap s')"
proof -
  from extendsD(4)[OF assms] obtain xs where "map fst (m_PathMap s') = map fst (m_PathMap s) @ xs" ..
  then have "length (map fst (m_PathMap s')) = length (map fst (m_PathMap s)) + length xs"
    by (metis length_append)
  then show ?thesis by simp
qed

lemma AddPath_store_inv:
  assumes step: "AddPath H b i s = Some s'" and inv: "store_inv maxIa cands s"
  shows "store_inv maxIa (cands @ [(path_key H (pathInfos b ! i) (in_labels b) (i * maxIa), pathInfos b ! i)]) s'"
proof -
  let ?c = "(path_key H (pathInfos b ! i) (in_labels b) (i * maxIa), pathInfos b ! i)"
  from inv have k: "keys_inv maxIa cands s" and sh: "shape_inv s"
    and se: "consistent_counts cands \<and> length (m_PathMap s) \<le> 2 ^ 32 \<longrightarrow> sentinel_inv cands s"
    unfolding store_inv_def by blast+
  have k': "keys_inv maxIa (cands @ [?c]) s'" by (rule AddPath_keys_inv[OF step k])
  have sh': "shape_inv s'" by (rule AddPath_shape_inv[OF step sh])
  have se': "sentinel_inv (cands @ [?c]) s'"
    if c: "consistent_counts (cands @ [?c])" and small: "length (m_PathMap s') \<le> 2 ^ 32"
  proof -
    from extends_length_mono[OF AddPath_extends[OF step]] small
    have "length (m_PathMap s) \<le> 2 ^ 32" by simp
    with se consistent_counts_prefix[OF c] have "sentinel_inv cands s" by blast
    from AddPath_sentinel_inv[OF step k sh this c small] show ?thesis .
  qed
  from k' sh' se' show ?thesis unfolding store_inv_def by blast
qed

lemma AddPaths_store_inv:
  assumes "AddPaths H b s = Some s'" and "store_inv maxIa cands s"
  shows "store_inv maxIa (cands @ batch_candidates H maxIa b) s'"
  unfolding batch_candidates_def
  by (rule for_each_hist[where Inv = "store_inv maxIa", OF assms(1)[unfolded AddPaths_def] assms(2)])
     (rule AddPath_store_inv)

lemma AddPaths_seq_store_inv:
  assumes "AddPaths_seq H bs s = Some s'" and "store_inv maxIa cands s"
  shows "store_inv maxIa (cands @ all_candidates H maxIa bs) s'"
  using assms
proof (induction bs arbitrary: s cands)
  case Nil
  then show ?case by (simp add: all_candidates_def)
next
  case (Cons b bs)
  from Cons.prems(1) obtain t where t: "AddPaths H b s = Some t" and r: "AddPaths_seq H bs t = Some s'"
    by (auto split: option.splits)
  from Cons.IH[OF r AddPaths_store_inv[OF t Cons.prems(2)]] show ?case
    by (simp add: all_candidates_def)
qed

lemma reachable_store_inv:
  assumes "AddPaths_seq H bs (PathStorage_ctor maxIa txs rxs) = Some s"
  shows "store_inv maxIa (all_candidates H maxIa bs) s"
  using AddPaths_seq_store_inv[OF assms store_inv_ctor] by simp

section \<open>The flat buffers of the compact exporter\<close>

lemma insert_slot_fold:
  assumes "n \<le> length d"
  shows "foldl (\<lambda>dat i. insert_slot d i dat) dat0 [0..<n] =
         dat0\<lparr>pd_interactions := pd_interactions dat0 @ concat (map interactions (take n d)),
              pd_normals := pd_normals dat0 @ concat (map normals (take n d)),
              pd_labels := pd_labels dat0 @ concat (map labels (take n d)),
              pd_materials := pd_materials dat0 @ concat (map materials (take n d))\<rparr>"
  using assms
proof (induction n)
  case 0
  then show ?case by simp
next
  case (Suc n)
  then have "take (Suc n) d = take n d @ [d ! n]" by (simp add: take_Suc_conv_app_nth)
  with Suc show ?case by (simp add: insert_slot_def)
qed

lemma ToPathData_fields:
  "pd_interactions (fst (ToPathData s)) = concat (map interactions (m_InteractionData s))"
  "pd_normals (fst (ToPathData s)) = concat (map normals (m_InteractionData s))"
  "pd_labels (fst (ToPathData s)) = concat (map labels (m_InteractionData s))"
  "pd_materials (fst (ToPathData s)) = concat (map materials (m_InteractionData s))"
  "pd_timeDelays (fst (ToPathData s)) = m_TimeDelays s"
  "pd_txIDs (fst (ToPathData s)) = m_TxIDs s"
  "pd_rxIDs (fst (ToPathData s)) = m_RxIDs s"
  "pd_pathTypes (fst (ToPathData s)) = m_PathTypes s"
  "pd_numInteractions (fst (ToPathData s)) = m_NumInteractions s"
  by (simp_all add: ToPathData_def Let_def insert_slot_fold)

lemma concat_uniform:
  assumes "\<forall>i < length xss. length (xss ! i) = n"
  shows "length (concat xss) = length xss * n \<and>
         (\<forall>i < length xss. \<forall>k < n. concat xss ! (i * n + k) = xss ! i ! k)"
  using assms
proof (induction xss)
  case Nil
  then show ?case by simp
next
  case (Cons xs xss)
  from Cons.prems have l0: "length xs = n" by auto
  from Cons.prems have "\<forall>i < length xss. length (xss ! i) = n" by auto
  from Cons.IH[OF this] have len: "length (concat xss) = length xss * n"
    and nth: "\<And>i k. i < length xss \<Longrightarrow> k < n \<Longrightarrow> concat xss ! (i * n + k) = xss ! i ! k"
    by blast+
  have "concat (xs # xss) ! (i * n + k) = (xs # xss) ! i ! k" if "i < length (xs # xss)" "k < n" for i k
  proof (cases i)
    case 0
    with that l0 show ?thesis by (simp add: nth_append)
  next
    case (Suc i')
    with that have "i' < length xss" by simp
    from nth[OF this that(2)] Suc l0 show ?thesis by (simp add: nth_append)
  qed
  with len l0 show ?case by simp
qed

text \<open>
  C4, as amended. For every store produced by a sequence of \<open>AddPaths\<close> calls on a new
  store, the number of map entries is the number of distinct keys, every per-path array
  of the \<open>ToPathData\<close> record has that length, and every interaction array has
  \<open>maxNumInteractions\<close> times that length. When the candidates that share a key all have
  the same interaction count, and at most \<open>2 ^ 32\<close> paths are retained (the slot index is a
  32-bit value), every interaction slot at or beyond a path's stored interaction count
  holds the sentinel label and material.
\<close>

theorem ToPathData_complete:
  assumes run: "AddPaths_seq H bs (PathStorage_ctor maxIa txs rxs) = Some s"
  shows "length (m_PathMap s) = card (set (map fst (all_candidates H maxIa bs))) \<and>
         length (pd_timeDelays (fst (ToPathData s))) = length (m_PathMap s) \<and>
         length (pd_txIDs (fst (ToPathData s))) = length (m_PathMap s) \<and>
         length (pd_rxIDs (fst (ToPathData s))) = length (m_PathMap s) \<and>
         length (pd_pathTypes (fst (ToPathData s))) = length (m_PathMap s) \<and>
         length (pd_numInteractions (fst (ToPathData s))) = length (m_PathMap s) \<and>
         length (pd_interactions (fst (ToPathData s))) = maxIa * length (m_PathMap s) \<and>
         length (pd_normals (fst (ToPathData s))) = maxIa * length (m_PathMap s) \<and>
         length (pd_labels (fst (ToPathData s))) = maxIa * length (m_PathMap s) \<and>
         length (pd_materials (fst (ToPathData s))) = maxIa * length (m_PathMap s) \<and>
         (consistent_counts (all_candidates H maxIa bs) \<and> length (m_PathMap s) \<le> 2 ^ 32 \<longrightarrow>
            (\<forall>k < length (m_PathMap s). \<forall>ia < maxIa.
               pd_numInteractions (fst (ToPathData s)) ! k \<le> ia \<longrightarrow>
                 pd_labels (fst (ToPathData s)) ! (ia * length (m_PathMap s) + k) = NOT 0 \<and>
                 pd_materials (fst (ToPathData s)) ! (ia * length (m_PathMap s) + k) = NOT 0))"
proof -
  let ?N = "length (m_PathMap s)"
  let ?d = "m_InteractionData s"
  from reachable_store_inv[OF run] have k: "keys_inv maxIa (all_candidates H maxIa bs) s"
    and sh: "shape_inv s"
    and se: "consistent_counts (all_candidates H maxIa bs) \<and> ?N \<le> 2 ^ 32 \<longrightarrow>
               sentinel_inv (all_candidates H maxIa bs) s"
    unfolding store_inv_def by blast+
  have card: "?N = card (set (map fst (all_candidates H maxIa bs)))" by (rule keys_inv_card[OF k])
  from k have len: "length ?d = maxIa" unfolding keys_inv_def by blast
  from sh have l: "length (m_TimeDelays s) = ?N" "length (m_TxIDs s) = ?N" "length (m_RxIDs s) = ?N"
      "length (m_PathTypes s) = ?N" "length (m_NumInteractions s) = ?N"
    and ia: "\<And>ia. ia < length ?d \<Longrightarrow>
        length (interactions (?d ! ia)) = ?N \<and> length (normals (?d ! ia)) = ?N \<and>
        length (labels (?d ! ia)) = ?N \<and> length (materials (?d ! ia)) = ?N"
    unfolding shape_inv_def by simp_all
  have ci: "length (concat (map interactions ?d)) = maxIa * ?N"
    using concat_uniform[of "map interactions ?d" ?N] ia len by simp
  have cn: "length (concat (map normals ?d)) = maxIa * ?N"
    using concat_uniform[of "map normals ?d" ?N] ia len by simp
  have cl: "length (concat (map labels ?d)) = maxIa * ?N \<and>
      (\<forall>i < maxIa. \<forall>k < ?N. concat (map labels ?d) ! (i * ?N + k) = labels (?d ! i) ! k)"
    using concat_uniform[of "map labels ?d" ?N] ia len by simp
  have cm: "length (concat (map materials ?d)) = maxIa * ?N \<and>
      (\<forall>i < maxIa. \<forall>k < ?N. concat (map materials ?d) ! (i * ?N + k) = materials (?d ! i) ! k)"
    using concat_uniform[of "map materials ?d" ?N] ia len by simp
  have sent: "pd_labels (fst (ToPathData s)) ! (ia * ?N + k) = NOT 0 \<and>
              pd_materials (fst (ToPathData s)) ! (ia * ?N + k) = NOT 0"
    if "consistent_counts (all_candidates H maxIa bs)" "?N \<le> 2 ^ 32"
       "k < ?N" "ia < maxIa" "pd_numInteractions (fst (ToPathData s)) ! k \<le> ia" for k ia
  proof -
    from se that(1,2) have "sentinel_inv (all_candidates H maxIa bs) s" by blast
    then have "labels (?d ! ia) ! k = NOT 0 \<and> materials (?d ! ia) ! k = NOT 0"
      unfolding sentinel_inv_def using that(3,4,5) len by (simp add: ToPathData_fields)
    with cl cm that(3,4) show ?thesis by (simp add: ToPathData_fields)
  qed
  from card l ci cn cl cm sent show ?thesis
    by (simp add: ToPathData_fields)
qed

theorem ToPathData_complete_witness:
  "short_run \<noteq> None \<and>
   consistent_counts (all_candidates example_hasher 2 [collide_batch_short]) \<and>
   length (m_PathMap (the short_run)) \<le> 2 ^ 32 \<and>
   length (m_PathMap (the short_run)) = 1 \<and>
   length (pd_timeDelays (fst (ToPathData (the short_run)))) = 1 \<and>
   length (pd_labels (fst (ToPathData (the short_run)))) = 2 \<and>
   length (pd_materials (fst (ToPathData (the short_run)))) = 2 \<and>
   pd_numInteractions (fst (ToPathData (the short_run))) ! 0 = 1 \<and>
   pd_labels (fst (ToPathData (the short_run))) ! 1 = NOT 0 \<and>
   pd_materials (fst (ToPathData (the short_run))) ! 1 = NOT 0"
proof -
  let ?s = "the short_run"
  let ?D = "fst (ToPathData ?s)"
  have run: "AddPaths_seq example_hasher [collide_batch_short] (PathStorage_ctor 2 [(0, 0, 0)] [(4, 0, 0)]) = Some ?s"
    by (simp add: collide_defs eval_defs)
  then have 0: "short_run \<noteq> None" unfolding short_run_def by (metis option.distinct(1))
  have cands: "all_candidates example_hasher 2 [collide_batch_short] =
      [(0, \<lparr>txID = 0, rxID = 0, pathType = LineOfSight, numInteractions = 1, timeDelay = 2\<rparr>)]"
    by (simp add: all_candidates_def batch_candidates_def path_key_def example_hasher_def
        collide_batch_short_def upt_conv_Cons)
  have cons: "consistent_counts (all_candidates example_hasher 2 [collide_batch_short])"
    unfolding cands consistent_counts_def by simp
  have n: "length (m_PathMap ?s) = 1" "pd_numInteractions ?D ! 0 = 1"
    by (simp_all add: ToPathData_fields collide_defs eval_defs)
  then have small: "length (m_PathMap ?s) \<le> 2 ^ 32" by simp
  from ToPathData_complete[OF run] have
    a: "length (pd_timeDelays ?D) = length (m_PathMap ?s)" and
    b: "length (pd_labels ?D) = 2 * length (m_PathMap ?s)" and
    c: "length (pd_materials ?D) = 2 * length (m_PathMap ?s)" and
    d: "consistent_counts (all_candidates example_hasher 2 [collide_batch_short]) \<and>
          length (m_PathMap ?s) \<le> 2 ^ 32 \<longrightarrow>
            (\<forall>k < length (m_PathMap ?s). \<forall>ia < 2.
               pd_numInteractions ?D ! k \<le> ia \<longrightarrow>
                 pd_labels ?D ! (ia * length (m_PathMap ?s) + k) = NOT 0 \<and>
                 pd_materials ?D ! (ia * length (m_PathMap ?s) + k) = NOT 0)"
    by blast+
  from d cons small have "\<forall>k < length (m_PathMap ?s). \<forall>ia < 2.
               pd_numInteractions ?D ! k \<le> ia \<longrightarrow>
                 pd_labels ?D ! (ia * length (m_PathMap ?s) + k) = NOT 0 \<and>
                 pd_materials ?D ! (ia * length (m_PathMap ?s) + k) = NOT 0" by blast
  from this[rule_format, of 0 1] n have e: "pd_labels ?D ! 1 = NOT 0 \<and> pd_materials ?D ! 1 = NOT 0"
    by simp
  from 0 cons small n a b c e show ?thesis by simp
qed

text \<open>
  The claim without the condition on the interaction counts fails: \<open>collide_run\<close> retains
  one path with stored interaction count 1 whose interaction slot 1 still holds the label
  0 and the material 9 of the first candidate.
\<close>

lemma collide_run_eval:
  "collide_run \<noteq> None"
  "m_NumInteractions (the collide_run) = [1]"
  "length (m_PathMap (the collide_run)) = 1"
  "map labels (m_InteractionData (the collide_run)) = [[0], [0]]"
  "map materials (m_InteractionData (the collide_run)) = [[8], [9]]"
  by (simp_all add: collide_defs eval_defs)

theorem ToPathData_sentinel_counterexample:
  "collide_run \<noteq> None \<and>
   length (m_PathMap (the collide_run)) = 1 \<and>
   pd_numInteractions (fst (ToPathData (the collide_run))) ! 0 = 1 \<and>
   pd_labels (fst (ToPathData (the collide_run))) ! (1 * length (m_PathMap (the collide_run)) + 0) = 0 \<and>
   pd_materials (fst (ToPathData (the collide_run))) ! (1 * length (m_PathMap (the collide_run)) + 0) = 9 \<and>
   (0 :: u32) \<noteq> NOT 0 \<and> (9 :: u32) \<noteq> NOT 0"
  by (simp add: ToPathData_fields collide_run_eval)

section \<open>The stored time delays\<close>

lemma delays_inv_ctor: "delays_inv (PathStorage_ctor maxIa txs rxs)"
  by (simp add: delays_inv_def PathStorage_ctor_def)

lemma AddPath_delays_inv:
  assumes step: "AddPath H b i s = Some s'" and shape: "shape_inv s" and inv: "delays_inv s"
  shows "delays_inv s'"
  unfolding delays_inv_def
proof (intro impI allI)
  fix l
  assume small: "length (m_PathMap s') \<le> 2 ^ 32" and l: "l < length (m_PathMap s')"
  from extends_length_mono[OF AddPath_extends[OF step]] small
  have small0: "length (m_PathMap s) \<le> 2 ^ 32" by simp
  with inv have old: "\<And>i. i < length (m_PathMap s) \<Longrightarrow>
      m_TimeDelays s ! i = entry_timeDelay (snd (m_PathMap s ! i))"
    unfolding delays_inv_def by blast
  from shape have lt: "length (m_TimeDelays s) = length (m_PathMap s)"
    and ix: "\<And>i. i < length (m_PathMap s) \<Longrightarrow> entry_pathIndex (snd (m_PathMap s ! i)) = of_nat i"
    unfolding shape_inv_def by simp_all
  from step show "m_TimeDelays s' ! l = entry_timeDelay (snd (m_PathMap s' ! l))"
  proof (cases rule: AddPath_cases)
    case (inserted h)
    note ins = insert_path_Some[OF inserted(4)]
    show ?thesis
    proof (cases "l < length (m_PathMap s)")
      case True
      with old[OF True] lt show ?thesis by (simp add: ins(3,6) nth_append)
    next
      case False
      with l have "l = length (m_PathMap s)" by (simp add: ins(3))
      with lt show ?thesis by (simp add: ins(3,6) nth_append)
    qed
  next
    case (updated h e)
    note upd = update_path_Some[OF updated(5)]
    from update_at_position[OF updated(3)] obtain j where j: "j < length (m_PathMap s)"
      "m_PathMap s ! j = (h, e)"
      "m_PathMap s' = (m_PathMap s)[j := (h, e\<lparr>entry_timeDelay := timeDelay (pathInfos b ! i)\<rparr>)]"
      unfolding upd(4) by blast
    from small0 j(1) have "j < 2 ^ 32" by simp
    moreover from ix[OF j(1)] j(2) have "entry_pathIndex e = of_nat j" by simp
    ultimately have pj: "unat (entry_pathIndex e) = j" by (simp add: unat_of_nat_small)
    from l j(3) have l0: "l < length (m_PathMap s)" by simp
    show ?thesis
    proof (cases "l = j")
      case True
      with j(1) lt show ?thesis by (simp add: upd(5) pj j(3))
    next
      case False
      with old[OF l0] show ?thesis by (simp add: upd(5) pj j(3))
    qed
  next
    case (discarded h e)
    with l old show ?thesis by simp
  qed
qed

lemma AddPaths_delays_inv:
  assumes "AddPaths H b s = Some s'" and "shape_inv s \<and> delays_inv s"
  shows "shape_inv s' \<and> delays_inv s'"
  using assms(1)[unfolded AddPaths_def] assms(2)
proof (rule for_each_invariant[where P = "\<lambda>t. shape_inv t \<and> delays_inv t"])
  fix i t t'
  assume "AddPath H b i t = Some t'" and "shape_inv t \<and> delays_inv t"
  then show "shape_inv t' \<and> delays_inv t'"
    using AddPath_shape_inv AddPath_delays_inv by blast
qed

lemma AddPaths_seq_delays_inv:
  assumes "AddPaths_seq H bs s = Some s'" and "shape_inv s \<and> delays_inv s"
  shows "shape_inv s' \<and> delays_inv s'"
  using assms
proof (induction bs arbitrary: s)
  case Nil
  then show ?case by simp
next
  case (Cons b bs)
  from Cons.prems(1) obtain t where t: "AddPaths H b s = Some t" and r: "AddPaths_seq H bs t = Some s'"
    by (auto split: option.splits)
  from Cons.IH[OF r AddPaths_delays_inv[OF t Cons.prems(2)]] show ?case .
qed

lemma reachable_delays_inv:
  assumes "AddPaths_seq H bs (PathStorage_ctor maxIa txs rxs) = Some s"
  shows "delays_inv s"
  using AddPaths_seq_delays_inv[OF assms] shape_inv_ctor delays_inv_ctor by blast

text \<open>
  C1: after any sequence of \<open>AddPaths\<close> calls on a new store, the map holds exactly one
  entry per distinct identity key among all submitted candidates (the keys are distinct,
  they are the candidates' keys, and the number of retained paths, which is the length of
  every per-path array, is the number of distinct keys), and the time delay stored with
  each key is the minimum time delay among the candidates with that key: in the map entry
  of the key and, when at most \<open>2 ^ 32\<close> paths are retained (the slot index is a 32-bit
  value), in \<open>m_TimeDelays\<close> at the slot of the key, which is the key's own position, and in
  the time delays that \<open>ToPathData\<close> exports.
\<close>

theorem AddPaths_dedup_min:
  assumes "AddPaths_seq H bs (PathStorage_ctor maxIa txs rxs) = Some s"
  shows "distinct (map fst (m_PathMap s)) \<and>
         set (map fst (m_PathMap s)) = set (map fst (all_candidates H maxIa bs)) \<and>
         length (m_PathMap s) = card (set (map fst (all_candidates H maxIa bs))) \<and>
         length (m_TimeDelays s) = card (set (map fst (all_candidates H maxIa bs))) \<and>
         length (m_TxIDs s) = card (set (map fst (all_candidates H maxIa bs))) \<and>
         length (m_RxIDs s) = card (set (map fst (all_candidates H maxIa bs))) \<and>
         length (m_PathTypes s) = card (set (map fst (all_candidates H maxIa bs))) \<and>
         length (m_NumInteractions s) = card (set (map fst (all_candidates H maxIa bs))) \<and>
         (\<forall>k e. map_of (m_PathMap s) k = Some e \<longrightarrow>
            entry_timeDelay e = Min (set (delays_of (all_candidates H maxIa bs) k))) \<and>
         (length (m_PathMap s) \<le> 2 ^ 32 \<longrightarrow>
            (\<forall>k e. map_of (m_PathMap s) k = Some e \<longrightarrow>
               unat (entry_pathIndex e) < length (m_TimeDelays s) \<and>
               m_PathMap s ! unat (entry_pathIndex e) = (k, e) \<and>
               m_TimeDelays s ! unat (entry_pathIndex e) =
                 Min (set (delays_of (all_candidates H maxIa bs) k)) \<and>
               pd_timeDelays (fst (ToPathData s)) ! unat (entry_pathIndex e) =
                 Min (set (delays_of (all_candidates H maxIa bs) k))))"
proof -
  let ?cands = "all_candidates H maxIa bs"
  from reachable_store_inv[OF assms]
  have inv: "keys_inv maxIa ?cands s" and shape: "shape_inv s"
    unfolding store_inv_def by blast+
  from inv have d: "distinct (map fst (m_PathMap s))"
    and k: "set (map fst (m_PathMap s)) = set (map fst ?cands)"
    and m: "\<And>k e. map_of (m_PathMap s) k = Some e \<Longrightarrow>
            entry_timeDelay e = Min (set (delays_of ?cands k))"
    unfolding keys_inv_def by blast+
  have c: "length (m_PathMap s) = card (set (map fst ?cands))"
    by (rule keys_inv_card[OF inv])
  from shape have lens: "length (m_TimeDelays s) = length (m_PathMap s)"
      "length (m_TxIDs s) = length (m_PathMap s)" "length (m_RxIDs s) = length (m_PathMap s)"
      "length (m_PathTypes s) = length (m_PathMap s)" "length (m_NumInteractions s) = length (m_PathMap s)"
    and ix: "\<And>i. i < length (m_PathMap s) \<Longrightarrow> entry_pathIndex (snd (m_PathMap s ! i)) = of_nat i"
    unfolding shape_inv_def by simp_all
  have slot: "unat (entry_pathIndex e) < length (m_TimeDelays s) \<and>
       m_PathMap s ! unat (entry_pathIndex e) = (k, e) \<and>
       m_TimeDelays s ! unat (entry_pathIndex e) = Min (set (delays_of ?cands k)) \<and>
       pd_timeDelays (fst (ToPathData s)) ! unat (entry_pathIndex e) = Min (set (delays_of ?cands k))"
    if small: "length (m_PathMap s) \<le> 2 ^ 32" and e: "map_of (m_PathMap s) k = Some e" for k e
  proof -
    from map_of_SomeD[OF e] obtain j where j: "j < length (m_PathMap s)" "m_PathMap s ! j = (k, e)"
      by (auto simp: in_set_conv_nth)
    from small j(1) have "j < 2 ^ 32" by simp
    moreover from ix[OF j(1)] j(2) have "entry_pathIndex e = of_nat j" by simp
    ultimately have pj: "unat (entry_pathIndex e) = j" by (simp add: unat_of_nat_small)
    from reachable_delays_inv[OF assms] small j(1)
    have "m_TimeDelays s ! j = entry_timeDelay (snd (m_PathMap s ! j))"
      unfolding delays_inv_def by blast
    with j(2) m[OF e] have "m_TimeDelays s ! j = Min (set (delays_of ?cands k))" by simp
    with j lens(1) show ?thesis by (simp add: pj ToPathData_fields)
  qed
  from d k c lens m slot show ?thesis by simp
qed

lemma example_candidates:
  "all_candidates example_hasher 1 [example_batch] =
     [(36, \<lparr>txID = 0, rxID = 0, pathType = Specular, numInteractions = 1, timeDelay = 3\<rparr>),
      (36, \<lparr>txID = 0, rxID = 0, pathType = Specular, numInteractions = 1, timeDelay = 2\<rparr>)]"
  by (simp add: all_candidates_def batch_candidates_def path_key_def example_hasher_def
      example_batch_def upt_conv_Cons)

theorem AddPaths_dedup_min_witness:
  "AddPaths_seq example_hasher [example_batch] (PathStorage_ctor 1 [(0, 0, 0)] [(4, 0, 0)]) = Some example_first \<and>
   distinct (map fst (m_PathMap example_first)) \<and>
   set (map fst (m_PathMap example_first)) = {36} \<and>
   length (m_PathMap example_first) = 1 \<and>
   length (m_TimeDelays example_first) = 1 \<and>
   length (m_TxIDs example_first) = 1 \<and>
   map_option entry_timeDelay (map_of (m_PathMap example_first) 36) = Some 2 \<and>
   map_option entry_pathIndex (map_of (m_PathMap example_first) 36) = Some 0 \<and>
   m_TimeDelays example_first ! 0 = 2 \<and>
   pd_timeDelays (fst (ToPathData example_first)) ! 0 = 2"
proof -
  let ?s = example_first
  let ?cands = "all_candidates example_hasher 1 [example_batch]"
  have 1: "AddPaths_seq example_hasher [example_batch] (PathStorage_ctor 1 [(0, 0, 0)] [(4, 0, 0)]) = Some ?s"
    unfolding example_first_def example_store_def by (simp add: eval_defs)
  have d: "delays_of ?cands 36 = [3, 2]"
    unfolding example_candidates delays_of_def by simp
  have m: "Min (set (delays_of ?cands 36)) = 2"
  proof -
    have "Min (set [3, 2 :: real]) = 2" by simp
    then show ?thesis unfolding d .
  qed
  from AddPaths_dedup_min[OF 1] have
    a: "distinct (map fst (m_PathMap ?s))" and
    b: "set (map fst (m_PathMap ?s)) = set (map fst ?cands)" and
    c: "length (m_PathMap ?s) = card (set (map fst ?cands))" and
    e: "length (m_TimeDelays ?s) = card (set (map fst ?cands))" and
    t: "length (m_TxIDs ?s) = card (set (map fst ?cands))" and
    f: "\<And>k e. map_of (m_PathMap ?s) k = Some e \<Longrightarrow>
            entry_timeDelay e = Min (set (delays_of ?cands k))" and
    g: "\<And>k e. length (m_PathMap ?s) \<le> 2 ^ 32 \<Longrightarrow> map_of (m_PathMap ?s) k = Some e \<Longrightarrow>
            unat (entry_pathIndex e) < length (m_TimeDelays ?s) \<and>
            m_TimeDelays ?s ! unat (entry_pathIndex e) = Min (set (delays_of ?cands k)) \<and>
            pd_timeDelays (fst (ToPathData ?s)) ! unat (entry_pathIndex e) = Min (set (delays_of ?cands k))"
    by blast+
  have b': "set (map fst (m_PathMap ?s)) = {36}" using b unfolding example_candidates by simp
  have c': "length (m_PathMap ?s) = 1" using c unfolding example_candidates by simp
  have e': "length (m_TimeDelays ?s) = 1" using e unfolding example_candidates by simp
  have t': "length (m_TxIDs ?s) = 1" using t unfolding example_candidates by simp
  from b' have "36 \<in> fst ` set (m_PathMap ?s)" by simp
  then have "map_of (m_PathMap ?s) 36 \<noteq> None" by (simp add: map_of_eq_None_iff)
  then obtain e0 where e0: "map_of (m_PathMap ?s) 36 = Some e0" by blast
  from f[OF e0] m have "entry_timeDelay e0 = 2" by simp
  with e0 have f': "map_option entry_timeDelay (map_of (m_PathMap ?s) 36) = Some 2" by simp
  from c' have small: "length (m_PathMap ?s) \<le> 2 ^ 32" by simp
  note slot = g[OF small e0]
  from slot e' have u: "unat (entry_pathIndex e0) = 0" by simp
  from slot m have g': "m_TimeDelays ?s ! 0 = 2" "pd_timeDelays (fst (ToPathData ?s)) ! 0 = 2"
    unfolding u by simp_all
  from u have "entry_pathIndex e0 = 0" by (simp add: unat_eq_0)
  with e0 have i': "map_option entry_pathIndex (map_of (m_PathMap ?s) 36) = Some 0" by simp
  from 1 a b' c' e' t' f' i' g' show ?thesis by simp
qed

section \<open>One path of the dense exporter\<close>

lemma sionna_scalars_Some:
  assumes "sionna_scalars s k tx rx n delay M pdi P = Some P'"
  shows "pdi < length (sp_mask P)"
    and "sp_mask P' = (sp_mask P)[pdi := 1]"
    and "pdi < length (sp_kTx P)"
    and "pdi < length (sp_kRx P)"
    and "n * length (m_Receivers s) * length (m_Transmitters s) * M + pdi < length (sp_incidentRays P)"
    and "n = 0 \<Longrightarrow> sp_kTx P' = (sp_kTx P)[pdi := glm_normalize (vsub rx tx)]"
    and "n = 0 \<Longrightarrow> sp_kRx P' = (sp_kRx P)[pdi := glm_normalize (vsub tx rx)]"
    and "n = 0 \<Longrightarrow> sp_incidentRays P' =
           (sp_incidentRays P)[0 * length (m_Receivers s) * length (m_Transmitters s) * M + pdi :=
              vneg (glm_normalize (vsub tx rx))]"
  using assms unfolding sionna_scalars_def Let_def Option.bind_eq_Some_conv wr_Some_iff
  by auto

lemma sionna_slot_Some:
  assumes "sionna_slot s k tx rx n M base ia P = Some P'"
  shows "sp_mask P' = sp_mask P"
  using assms unfolding sionna_slot_def Let_def Option.bind_eq_Some_conv wr_Some_iff
  by auto

lemma sionna_slots_mask:
  assumes "for_each is (sionna_slot s k tx rx n M base) P = Some P'"
  shows "sp_mask P' = sp_mask P"
  using assms
  by (rule for_each_invariant[where P = "\<lambda>Q. sp_mask Q = sp_mask P"]) (simp_all add: sionna_slot_Some)

lemma sionna_path_Some:
  assumes "sionna_path k (s, paths) = Some (s', paths')"
  obtains P1 P2 where
    "k < length (m_PathTypes s)" "k < length (m_TxIDs s)" "k < length (m_RxIDs s)"
    "k < length (m_NumInteractions s)" "k < length (m_TimeDelays s)"
    "unat (m_TxIDs s ! k) < length (m_Transmitters s)"
    "unat (m_RxIDs s ! k) < length (m_Receivers s)"
    "path_link s k < length (m_PathCounts s)"
    "s' = s\<lparr>m_PathCounts := (m_PathCounts s)[path_link s k :=
            (m_PathCounts s ! path_link s k)(path_class s k :=
               (m_PathCounts s ! path_link s k) (path_class s k) - 1)]\<rparr>"
    "for_each [0..<m_MaxNumInteractions s]
       (sionna_slot s k (m_Transmitters s ! unat (m_TxIDs s ! k)) (m_Receivers s ! unat (m_RxIDs s ! k))
          (m_NumInteractions s ! k) (unat (m_MaxLinkPaths s (path_class s k)))
          (unat (m_RxIDs s ! k) * length (m_Transmitters s) * unat (m_MaxLinkPaths s (path_class s k)) +
           unat (m_TxIDs s ! k * m_MaxLinkPaths s (path_class s k)) + path_slot s k))
       (paths (path_class s k)) = Some P1"
    "sionna_scalars s k (m_Transmitters s ! unat (m_TxIDs s ! k)) (m_Receivers s ! unat (m_RxIDs s ! k))
       (m_NumInteractions s ! k) (m_TimeDelays s ! k) (unat (m_MaxLinkPaths s (path_class s k)))
       (path_write_index s k) P1 = Some P2"
    "paths' = paths(path_class s k := P2)"
  using assms
  unfolding sionna_path_def path_class_def path_link_def path_slot_def path_write_index_def
    Let_def Option.bind_eq_Some_conv rd_Some_iff prod.case
  by auto

text \<open>
  For a retained path with no interaction, the loop body writes \<open>kTx = normalize(rx - tx)\<close>
  and \<open>kRx = normalize(tx - rx)\<close> at the path's per-path write index, and \<open>- kRx\<close> at the
  same index of the incident-ray buffer (interaction slot 0).
\<close>

lemma line_of_sight_step:
  assumes step: "sionna_path k (s, paths) = Some (s', paths')"
    and los: "m_NumInteractions s ! k = 0"
  shows "sp_kTx (paths' (path_class s k)) ! path_write_index s k =
           glm_normalize (vsub (m_Receivers s ! unat (m_RxIDs s ! k)) (m_Transmitters s ! unat (m_TxIDs s ! k))) \<and>
         sp_kRx (paths' (path_class s k)) ! path_write_index s k =
           glm_normalize (vsub (m_Transmitters s ! unat (m_TxIDs s ! k)) (m_Receivers s ! unat (m_RxIDs s ! k))) \<and>
         sp_incidentRays (paths' (path_class s k)) !
             (0 * length (m_Receivers s) * length (m_Transmitters s) * unat (m_MaxLinkPaths s (path_class s k)) +
              path_write_index s k) =
           vneg (sp_kRx (paths' (path_class s k)) ! path_write_index s k)"
proof -
  from step obtain P1 P2 where
    sc: "sionna_scalars s k (m_Transmitters s ! unat (m_TxIDs s ! k)) (m_Receivers s ! unat (m_RxIDs s ! k))
       (m_NumInteractions s ! k) (m_TimeDelays s ! k) (unat (m_MaxLinkPaths s (path_class s k)))
       (path_write_index s k) P1 = Some P2"
    and p': "paths' = paths(path_class s k := P2)"
    by (rule sionna_path_Some)
  note f = sionna_scalars_Some[OF sc]
  from f(3) f(6)[OF los] have 1: "sp_kTx P2 ! path_write_index s k =
      glm_normalize (vsub (m_Receivers s ! unat (m_RxIDs s ! k)) (m_Transmitters s ! unat (m_TxIDs s ! k)))"
    by simp
  from f(4) f(7)[OF los] have 2: "sp_kRx P2 ! path_write_index s k =
      glm_normalize (vsub (m_Transmitters s ! unat (m_TxIDs s ! k)) (m_Receivers s ! unat (m_RxIDs s ! k)))"
    by simp
  from f(5) f(8)[OF los] los have 3: "sp_incidentRays P2 !
      (0 * length (m_Receivers s) * length (m_Transmitters s) * unat (m_MaxLinkPaths s (path_class s k)) +
       path_write_index s k) =
      vneg (glm_normalize (vsub (m_Transmitters s ! unat (m_TxIDs s ! k)) (m_Receivers s ! unat (m_RxIDs s ! k))))"
    by simp
  from 1 2 3 show ?thesis by (simp add: p')
qed

lemmas sionna_eval_defs = sionna_path_def sionna_slot_def sionna_scalars_def ReservePaths_def
  ReservePaths_type_def ToSionnaPathData_def path_class_def path_link_def path_slot_def
  path_write_index_def

lemma los_store_eval:
  "m_NumInteractions los_store = [0]" "m_TxIDs los_store = [0]" "m_RxIDs los_store = [0]"
  "m_PathTypes los_store = [LineOfSight]" "m_Transmitters los_store = [(0, 0, 0)]"
  "m_Receivers los_store = [(4, 0, 0)]" "m_MaxLinkPaths los_store Sionna_Specular = 1"
  "(m_PathCounts los_store ! 0) Sionna_Specular = 1" "m_MaxNumInteractions los_store = 1"
  "m_TimeDelays los_store = [1]"
  "m_InteractionData los_store = [\<lparr>interactions = [(0, 0, 0)], normals = [(0, 0, 0)],
      labels = [NOT 0], materials = [NOT 0]\<rparr>]"
  "length (m_PathCounts los_store) = 2"
  by (simp_all add: los_store_def los_batch_def eval_defs)

section \<open>The per-link counters count the retained paths\<close>

lemma counts_inv_ctor: "counts_inv (PathStorage_ctor maxIa txs rxs)"
  by (simp add: counts_inv_def PathStorage_ctor_def link_count_def rem_count_def)

lemma link_count_frame:
  assumes "m_TxIDs s' = m_TxIDs s" "m_RxIDs s' = m_RxIDs s" "m_PathTypes s' = m_PathTypes s"
    "m_Transmitters s' = m_Transmitters s"
  shows "rem_count s' i l c = rem_count s i l c"
  by (simp add: rem_count_def path_link_def path_class_def assms)

lemma link_count_insert:
  assumes len: "length (m_RxIDs s) = length (m_TxIDs s)" "length (m_PathTypes s) = length (m_TxIDs s)"
    and tx: "m_TxIDs s' = m_TxIDs s @ [tx]" and rx: "m_RxIDs s' = m_RxIDs s @ [rx]"
    and ty: "m_PathTypes s' = m_PathTypes s @ [ty]" and tr: "m_Transmitters s' = m_Transmitters s"
  shows "link_count s' l c = link_count s l c +
           (if unat rx * length (m_Transmitters s) + unat tx = l \<and> GetSionnaPathType ty = c then 1 else 0)"
proof -
  let ?N = "length (m_TxIDs s)"
  let ?P = "\<lambda>t k. path_link t k = l \<and> path_class t k = c"
  have old: "?P s' k = ?P s k" if "k < ?N" for k
    using that len by (simp add: path_link_def path_class_def tx rx ty tr nth_append)
  have new: "?P s' ?N \<longleftrightarrow> unat rx * length (m_Transmitters s) + unat tx = l \<and> GetSionnaPathType ty = c"
    using len by (simp add: path_link_def path_class_def tx rx ty tr nth_append)
  have "filter (?P s') [0..<?N] = filter (?P s) [0..<?N]"
    by (rule filter_cong) (simp_all add: old)
  moreover have "[0..<length (m_TxIDs s')] = [0..<?N] @ [?N]" by (simp add: tx)
  ultimately have "filter (?P s') [0..<length (m_TxIDs s')] =
      filter (?P s) [0..<?N] @ (if ?P s' ?N then [?N] else [])" by simp
  then have "length (filter (?P s') [0..<length (m_TxIDs s')]) =
      length (filter (?P s) [0..<?N]) + (if ?P s' ?N then 1 else 0)" by simp
  with new show ?thesis by (simp add: link_count_def rem_count_def)
qed

lemma AddPath_counts_inv:
  assumes step: "AddPath H b i s = Some s'" and shape: "shape_inv s" and inv: "counts_inv s"
  shows "counts_inv s'"
  using step
proof (cases rule: AddPath_cases)
  case (inserted h)
  note ins = insert_path_Some[OF inserted(4)]
  let ?p = "pathInfos b ! i"
  let ?l = "link_of s (rxID ?p) (txID ?p)"
  let ?c = "GetSionnaPathType (pathType ?p)"
  let ?f = "m_PathCounts s ! ?l"
  from shape have len: "length (m_RxIDs s) = length (m_TxIDs s)" "length (m_PathTypes s) = length (m_TxIDs s)"
    unfolding shape_inv_def by simp_all
  from inv have sz: "length (m_PathCounts s) = length (m_Transmitters s) + length (m_Receivers s)"
    and cnt: "\<And>l c. l < length (m_PathCounts s) \<Longrightarrow> (m_PathCounts s ! l) c = of_nat (link_count s l c)"
    and lk: "\<And>k. k < length (m_TxIDs s) \<Longrightarrow> path_link s k < length (m_PathCounts s)"
    and mx: "\<And>l c. l < length (m_PathCounts s) \<Longrightarrow> (m_PathCounts s ! l) c \<le> m_MaxLinkPaths s c"
    unfolding counts_inv_def by blast+
  have lc: "link_count s' l c = link_count s l c + (if ?l = l \<and> ?c = c then 1 else 0)" for l c
    using link_count_insert[OF len ins(7) ins(8) ins(9) ins(11)] by (simp add: link_of_def)
  have a: "length (m_PathCounts s') = length (m_Transmitters s') + length (m_Receivers s')"
    using sz by (simp add: ins(4,11,12))
  have b: "(m_PathCounts s' ! l) c = of_nat (link_count s' l c)" if "l < length (m_PathCounts s')" for l c
  proof -
    from that have l: "l < length (m_PathCounts s)" by (simp add: ins(4))
    show ?thesis
    proof (cases "l = ?l \<and> c = ?c")
      case True
      with l cnt[OF l, of c] show ?thesis by (simp add: ins(4) lc)
    next
      case False
      with l cnt[OF l, of c] show ?thesis
        by (cases "l = ?l") (auto simp: ins(4) lc nth_list_update)
    qed
  qed
  have c: "path_link s' k < length (m_PathCounts s')" if "k < length (m_TxIDs s')" for k
  proof (cases "k < length (m_TxIDs s)")
    case True
    with lk[OF True] len show ?thesis
      by (simp add: path_link_def ins(4,7,8,11) nth_append)
  next
    case False
    with that have "k = length (m_TxIDs s)" by (simp add: ins(7))
    with ins(2) len show ?thesis
      by (simp add: path_link_def link_of_def ins(4,7,8,11) nth_append)
  qed
  have d: "(m_PathCounts s' ! l) c \<le> m_MaxLinkPaths s' c" if "l < length (m_PathCounts s')" for l c
  proof -
    from that have l: "l < length (m_PathCounts s)" by (simp add: ins(4))
    show ?thesis
    proof (cases "l = ?l \<and> c = ?c")
      case True
      with l show ?thesis by (simp add: ins(4,5))
    next
      case False
      with l mx[OF l, of c] show ?thesis
        by (cases "l = ?l") (auto simp: ins(4,5) nth_list_update max.coboundedI1)
    qed
  qed
  from a b c d show ?thesis unfolding counts_inv_def by blast
next
  case (updated h e)
  note upd = update_path_Some[OF updated(5)]
  have "link_count s' l c = link_count s l c" for l c
    unfolding link_count_def by (rule link_count_frame[OF upd(9,10,11,12)])
  moreover have "path_link s' k = path_link s k" for k
    by (simp add: path_link_def upd(9,10,12))
  ultimately have "counts_inv s' = counts_inv s" unfolding counts_inv_def
    by (simp only: upd(7,8,9,12,13))
  with inv show ?thesis by simp
next
  case (discarded h e)
  with inv show ?thesis by simp
qed

lemma export_inv_ctor: "export_inv (PathStorage_ctor maxIa txs rxs)"
  by (simp add: export_inv_def shape_inv_ctor counts_inv_ctor)

lemma AddPath_export_inv:
  assumes "AddPath H b i s = Some s'" and "export_inv s"
  shows "export_inv s'"
  using assms AddPath_shape_inv AddPath_counts_inv unfolding export_inv_def by blast

lemma AddPaths_export_inv:
  assumes "AddPaths H b s = Some s'" and "export_inv s"
  shows "export_inv s'"
  using assms(1)[unfolded AddPaths_def] assms(2)
  by (rule for_each_invariant) (rule AddPath_export_inv)

lemma AddPaths_seq_export_inv:
  assumes "AddPaths_seq H bs s = Some s'" and "export_inv s"
  shows "export_inv s'"
  using assms
proof (induction bs arbitrary: s)
  case Nil
  then show ?case by simp
next
  case (Cons b bs)
  from Cons.prems(1) obtain t where t: "AddPaths H b s = Some t" and r: "AddPaths_seq H bs t = Some s'"
    by (auto split: option.splits)
  from Cons.IH[OF r AddPaths_export_inv[OF t Cons.prems(2)]] show ?case .
qed

lemma AddPaths_seq_frame:
  assumes "AddPaths_seq H bs s = Some s'"
  shows "m_Transmitters s' = m_Transmitters s \<and> m_Receivers s' = m_Receivers s \<and>
         m_MaxNumInteractions s' = m_MaxNumInteractions s"
proof -
  have step: "m_Transmitters t' = m_Transmitters t \<and> m_Receivers t' = m_Receivers t \<and>
         m_MaxNumInteractions t' = m_MaxNumInteractions t" if "AddPath H b i t = Some t'" for b i t t'
    using that
  proof (cases rule: AddPath_cases)
    case (inserted h)
    from insert_path_Some(11,12,13)[OF inserted(4)] show ?thesis by simp
  next
    case (updated h e)
    from update_path_Some(12,13,14)[OF updated(5)] show ?thesis by simp
  next
    case (discarded h e)
    then show ?thesis by simp
  qed
  have batch: "m_Transmitters t' = m_Transmitters t \<and> m_Receivers t' = m_Receivers t \<and>
         m_MaxNumInteractions t' = m_MaxNumInteractions t" if "AddPaths H b t = Some t'" for b t t'
    using that[unfolded AddPaths_def]
    by (rule for_each_invariant[where P = "\<lambda>u. m_Transmitters u = m_Transmitters t \<and>
         m_Receivers u = m_Receivers t \<and> m_MaxNumInteractions u = m_MaxNumInteractions t"])
       (use step in auto)
  from assms show ?thesis
  proof (induction bs arbitrary: s)
    case Nil
    then show ?case by simp
  next
    case (Cons b bs)
    from Cons.prems obtain t where t: "AddPaths H b s = Some t" and r: "AddPaths_seq H bs t = Some s'"
      by (auto split: option.splits)
    from Cons.IH[OF r] batch[OF t] show ?case by simp
  qed
qed

section \<open>Index arithmetic of the dense layout\<close>

lemma index_unique:
  fixes M :: nat
  assumes "j < M" "j' < M"
  shows "l * M + j = l' * M + j' \<longleftrightarrow> l = l' \<and> j = j'"
proof
  assume eq: "l * M + j = l' * M + j'"
  then have "(l * M + j) div M = (l' * M + j') div M" by simp
  with assms have "l = l'" by simp
  with eq show "l = l' \<and> j = j'" by simp
next
  assume "l = l' \<and> j = j'"
  then show "l * M + j = l' * M + j'" by simp
qed

lemma rem_count_Suc:
  assumes "i < length (m_TxIDs s)"
  shows "rem_count s i l c =
           (if path_link s i = l \<and> path_class s i = c then 1 else 0) + rem_count s (Suc i) l c"
  using assms by (simp add: rem_count_def upt_conv_Cons)

lemma rem_count_end: "rem_count s (length (m_TxIDs s)) l c = 0"
  by (simp add: rem_count_def)

lemma rem_count_le: "rem_count s i l c \<le> link_count s l c"
proof (induction i)
  case 0
  then show ?case by (simp add: link_count_def)
next
  case (Suc i)
  show ?case
  proof (cases "i < length (m_TxIDs s)")
    case True
    from rem_count_Suc[OF True, of l c] Suc show ?thesis by simp
  next
    case False
    then show ?thesis by (simp add: rem_count_def)
  qed
qed

lemma link_count_le: "link_count s l c \<le> length (m_TxIDs s)"
proof -
  have "length (filter (\<lambda>k. path_link s k = l \<and> path_class s k = c) [0..<length (m_TxIDs s)])
          \<le> length [0..<length (m_TxIDs s)]"
    by (rule length_filter_le)
  then show ?thesis by (simp add: link_count_def rem_count_def)
qed

lemma of_nat_minus_one:
  assumes "0 < r"
  shows "(of_nat r :: u32) - 1 = of_nat (r - 1)"
proof -
  from assms obtain r' where "r = Suc r'" by (cases r) simp_all
  then show ?thesis by simp
qed

lemma of_nat_le_unat:
  assumes "(of_nat K :: u32) \<le> w" and "K < 2 ^ 32"
  shows "K \<le> unat w"
proof -
  from assms(1) have "unat (of_nat K :: u32) \<le> unat w" by (simp add: word_le_nat_alt)
  with assms(2) show ?thesis by (simp add: unat_of_nat_small)
qed

lemma unat_mult_small:
  fixes a b :: u32
  assumes "unat a * unat b < 2 ^ 32"
  shows "unat (a * b) = unat a * unat b"
  using assms unat_mult_lem[of a b] by simp

section \<open>The loop of the dense exporter\<close>

lemma sionna_inv_step:
  assumes step: "sionna_path i st = Some st'"
    and inv: "sionna_inv s0 i st"
    and i: "i < length (m_TxIDs s0)"
    and cinv: "counts_inv s0"
    and small: "length (m_TxIDs s0) < 2 ^ 32"
    and nowrap: "\<forall>c. length (m_Transmitters s0) * unat (m_MaxLinkPaths s0 c) \<le> 2 ^ 32"
  shows "sionna_inv s0 (Suc i) st'"
proof -
  obtain s paths where st: "st = (s, paths)" by (cases st)
  obtain s' paths' where st': "st' = (s', paths')" by (cases st')
  let ?T = "length (m_Transmitters s0)"
  let ?R = "length (m_Receivers s0)"
  let ?c = "path_class s0 i"
  let ?l = "path_link s0 i"
  let ?M = "\<lambda>c. unat (m_MaxLinkPaths s0 c)"
  let ?r = "rem_count s0 i ?l ?c"
  let ?K = "link_count s0 ?l ?c"
  from inv st have fr: "m_TxIDs s = m_TxIDs s0" "m_RxIDs s = m_RxIDs s0" "m_PathTypes s = m_PathTypes s0"
      "m_Transmitters s = m_Transmitters s0" "m_Receivers s = m_Receivers s0"
      "m_MaxLinkPaths s = m_MaxLinkPaths s0"
    and lc: "length (m_PathCounts s) = length (m_PathCounts s0)"
    and cn: "\<And>l c. l < length (m_PathCounts s0) \<Longrightarrow> (m_PathCounts s ! l) c = of_nat (rem_count s0 i l c)"
    and ml: "\<And>c. length (sp_mask (paths c)) = ?R * ?T * ?M c"
    and mk: "\<And>c l j. j < ?M c \<Longrightarrow> l * ?M c + j < length (sp_mask (paths c)) \<Longrightarrow>
        sp_mask (paths c) ! (l * ?M c + j) = (if rem_count s0 i l c \<le> j \<and> j < link_count s0 l c then 1 else 0)"
    and bd: "\<And>k. k < i \<Longrightarrow> unat (m_TxIDs s0 ! k) < ?T \<and> unat (m_RxIDs s0 ! k) < ?R"
    unfolding sionna_inv_def by simp_all
  have cls: "path_class s i = ?c" and lnk: "path_link s i = ?l"
    by (simp_all add: path_class_def path_link_def fr)
  from step[unfolded st st'] obtain P1 P2 where
    tx: "unat (m_TxIDs s ! i) < length (m_Transmitters s)" and
    rx: "unat (m_RxIDs s ! i) < length (m_Receivers s)" and
    lk: "path_link s i < length (m_PathCounts s)" and
    s': "s' = s\<lparr>m_PathCounts := (m_PathCounts s)[path_link s i :=
            (m_PathCounts s ! path_link s i)(path_class s i :=
               (m_PathCounts s ! path_link s i) (path_class s i) - 1)]\<rparr>" and
    lp: "for_each [0..<m_MaxNumInteractions s]
       (sionna_slot s i (m_Transmitters s ! unat (m_TxIDs s ! i)) (m_Receivers s ! unat (m_RxIDs s ! i))
          (m_NumInteractions s ! i) (unat (m_MaxLinkPaths s (path_class s i)))
          (unat (m_RxIDs s ! i) * length (m_Transmitters s) * unat (m_MaxLinkPaths s (path_class s i)) +
           unat (m_TxIDs s ! i * m_MaxLinkPaths s (path_class s i)) + path_slot s i))
       (paths (path_class s i)) = Some P1" and
    sc: "sionna_scalars s i (m_Transmitters s ! unat (m_TxIDs s ! i)) (m_Receivers s ! unat (m_RxIDs s ! i))
       (m_NumInteractions s ! i) (m_TimeDelays s ! i) (unat (m_MaxLinkPaths s (path_class s i)))
       (path_write_index s i) P1 = Some P2" and
    p': "paths' = paths(path_class s i := P2)"
    by (rule sionna_path_Some)
  from tx rx have txb: "unat (m_TxIDs s0 ! i) < ?T" and rxb: "unat (m_RxIDs s0 ! i) < ?R"
    by (simp_all add: fr)
  from lk have lkb: "?l < length (m_PathCounts s0)" by (simp add: lnk lc)
  \<comment> \<open>the remaining count of the link of path \<open>i\<close>\<close>
  from rem_count_Suc[OF i, of ?l ?c] have r: "?r = Suc (rem_count s0 (Suc i) ?l ?c)" by simp
  have rK: "?r \<le> ?K" by (rule rem_count_le)
  from link_count_le[of s0 ?l ?c] small have Ks: "?K < 2 ^ 32" by simp
  from cinv lkb have "(m_PathCounts s0 ! ?l) ?c = of_nat ?K" "(m_PathCounts s0 ! ?l) ?c \<le> m_MaxLinkPaths s0 ?c"
    unfolding counts_inv_def by blast+
  then have "(of_nat ?K :: u32) \<le> m_MaxLinkPaths s0 ?c" by simp
  from of_nat_le_unat[OF this Ks] have KM: "?K \<le> ?M ?c" .
  have dec: "(m_PathCounts s ! ?l) ?c - 1 = of_nat (?r - 1)"
    using cn[OF lkb, of ?c] r by (simp add: of_nat_minus_one)
  from rK Ks r have "?r - 1 < 2 ^ 32" by simp
  then have slot: "path_slot s i = ?r - 1"
    by (simp add: path_slot_def cls lnk dec unat_of_nat_small)
  from r rK KM have slotM: "?r - 1 < ?M ?c" by simp
  then have Mpos: "0 < ?M ?c" by simp
  from txb Mpos have "unat (m_TxIDs s0 ! i) * ?M ?c < ?T * ?M ?c" by simp
  moreover from nowrap have "?T * ?M ?c \<le> 2 ^ 32" by (rule spec)
  ultimately have "unat (m_TxIDs s0 ! i) * unat (m_MaxLinkPaths s0 ?c) < 2 ^ 32"
    by (rule less_le_trans)
  from unat_mult_small[OF this]
  have txo: "unat (m_TxIDs s0 ! i * m_MaxLinkPaths s0 ?c) = unat (m_TxIDs s0 ! i) * ?M ?c" .
  have pdi: "path_write_index s i = ?l * ?M ?c + (?r - 1)"
    by (simp add: path_write_index_def cls fr txo slot path_link_def algebra_simps)
  \<comment> \<open>the mask of the class of path \<open>i\<close>\<close>
  from sionna_slots_mask[OF lp] have m1: "sp_mask P1 = sp_mask (paths ?c)" by (simp add: cls)
  from sionna_scalars_Some(1,2)[OF sc] m1 pdi
  have wi: "?l * ?M ?c + (?r - 1) < length (sp_mask (paths ?c))"
    and m2: "sp_mask P2 = (sp_mask (paths ?c))[?l * ?M ?c + (?r - 1) := 1]" by simp_all
  have rem': "rem_count s0 (Suc i) l c = rem_count s0 i l c - (if l = ?l \<and> c = ?c then 1 else 0)" for l c
    using rem_count_Suc[OF i, of l c] by auto
  \<comment> \<open>the parts of the invariant\<close>
  have a: "m_TxIDs s' = m_TxIDs s0" "m_RxIDs s' = m_RxIDs s0" "m_PathTypes s' = m_PathTypes s0"
      "m_Transmitters s' = m_Transmitters s0" "m_Receivers s' = m_Receivers s0"
      "m_MaxLinkPaths s' = m_MaxLinkPaths s0" "length (m_PathCounts s') = length (m_PathCounts s0)"
    by (simp_all add: s' fr lc)
  have b: "(m_PathCounts s' ! l) c = of_nat (rem_count s0 (Suc i) l c)" if "l < length (m_PathCounts s0)" for l c
  proof (cases "l = ?l \<and> c = ?c")
    case True
    with that lc r dec show ?thesis by (simp add: s' cls lnk)
  next
    case False
    with that lc cn[OF that, of c] show ?thesis
      by (cases "l = ?l") (auto simp: s' cls lnk rem' nth_list_update)
  qed
  have c: "length (sp_mask (paths' c)) = ?R * ?T * ?M c" for c
    using ml[of c] ml[of ?c] by (cases "c = ?c") (simp_all add: p' cls m2)
  have d: "sp_mask (paths' c) ! (l * ?M c + j) =
      (if rem_count s0 (Suc i) l c \<le> j \<and> j < link_count s0 l c then 1 else 0)"
    if j: "j < ?M c" and lj: "l * ?M c + j < length (sp_mask (paths' c))" for c l j
  proof (cases "c = ?c")
    case False
    with lj have "l * ?M c + j < length (sp_mask (paths c))" by (simp add: p' cls)
    from mk[OF j this] False show ?thesis by (simp add: p' cls rem')
  next
    case True
    from lj True have lj': "l * ?M ?c + j < length (sp_mask (paths ?c))" by (simp add: p' cls m2)
    from j True have j': "j < ?M ?c" by simp
    note old = mk[OF j' lj']
    show ?thesis
    proof (cases "l = ?l \<and> j = ?r - 1")
      case hit: True
      with True lj' r rK show ?thesis by (simp add: p' cls m2)
    next
      case miss: False
      with index_unique[OF j' slotM, of l ?l] have ne: "l * ?M ?c + j \<noteq> ?l * ?M ?c + (?r - 1)" by simp
      show ?thesis
      proof (cases "l = ?l")
        case True
        with miss have "j \<noteq> ?r - 1" by simp
        with old ne r \<open>c = ?c\<close> \<open>l = ?l\<close> show ?thesis by (auto simp: p' cls m2)
      next
        case False
        with old ne \<open>c = ?c\<close> show ?thesis by (simp add: p' cls m2 rem')
      qed
    qed
  qed
  have e: "unat (m_TxIDs s0 ! k) < ?T \<and> unat (m_RxIDs s0 ! k) < ?R" if "k < Suc i" for k
    using that bd txb rxb by (cases "k = i") simp_all
  from a b c d e show ?thesis unfolding sionna_inv_def st' by simp
qed

lemma for_each_upt_invariant:
  assumes "for_each [0..<n] body s = Some s'" and "Inv 0 s"
    and "\<And>i t t'. i < n \<Longrightarrow> Inv i t \<Longrightarrow> body i t = Some t' \<Longrightarrow> Inv (Suc i) t'"
  shows "Inv n s'"
  using assms
proof (induction n arbitrary: s')
  case 0
  then show ?case by simp
next
  case (Suc n)
  from Suc.prems(1) obtain t where t: "for_each [0..<n] body s = Some t" and st: "body n t = Some s'"
    by (auto simp: for_each_snoc split: option.splits)
  have "Inv n t" by (rule Suc.IH[OF t Suc.prems(2)]) (rule Suc.prems(3), simp_all)
  then show ?case by (rule Suc.prems(3)[OF _ _ st, rotated]) simp
qed

lemma link_count_link_paths:
  assumes all: "\<forall>k < length (m_TxIDs s). unat (m_TxIDs s ! k) < length (m_Transmitters s)"
    and tx: "unat tx < length (m_Transmitters s)"
  shows "link_count s (unat rx * length (m_Transmitters s) + unat tx) c = link_paths s c tx rx"
proof -
  have "(path_link s k = unat rx * length (m_Transmitters s) + unat tx \<and> path_class s k = c) \<longleftrightarrow>
        (m_TxIDs s ! k = tx \<and> m_RxIDs s ! k = rx \<and> GetSionnaPathType (m_PathTypes s ! k) = c)"
    if "k \<in> set [0..<length (m_TxIDs s)]" for k
  proof -
    from that all have "unat (m_TxIDs s ! k) < length (m_Transmitters s)" by simp
    from index_unique[OF this tx, of "unat (m_RxIDs s ! k)" "unat rx"]
    show ?thesis by (auto simp: path_link_def path_class_def word_unat_eq_iff)
  qed
  then have "filter (\<lambda>k. path_link s k = unat rx * length (m_Transmitters s) + unat tx \<and> path_class s k = c)
               [0..<length (m_TxIDs s)] =
             filter (\<lambda>k. m_TxIDs s ! k = tx \<and> m_RxIDs s ! k = rx \<and>
                          GetSionnaPathType (m_PathTypes s ! k) = c) [0..<length (m_TxIDs s)]"
    by (rule filter_cong[OF refl])
  then show ?thesis by (simp add: link_count_def rem_count_def link_paths_def)
qed

lemma sionna_inv_init:
  assumes "counts_inv s"
  shows "sionna_inv s 0 (s, sd_paths (ReservePaths
     \<lparr>sd_transmitters = m_Transmitters s, sd_receivers = m_Receivers s,
      sd_maxNumIa = m_MaxNumInteractions s, sd_maxLinkPaths = m_MaxLinkPaths s,
      sd_paths = (\<lambda>_. ReservePaths_type 0 0 0 0)\<rparr>))"
  using assms unfolding sionna_inv_def counts_inv_def
  by (simp add: ReservePaths_def ReservePaths_type_def link_count_def Let_def)

lemma ToSionnaPathData_Some:
  assumes "ToSionnaPathData s = Some (sd, s')"
  shows "for_each [0..<length (m_TxIDs s) mod 2 ^ 32] sionna_path
           (s, sd_paths (ReservePaths
             \<lparr>sd_transmitters = m_Transmitters s, sd_receivers = m_Receivers s,
              sd_maxNumIa = m_MaxNumInteractions s, sd_maxLinkPaths = m_MaxLinkPaths s,
              sd_paths = (\<lambda>_. ReservePaths_type 0 0 0 0)\<rparr>)) = Some (s', sd_paths sd)"
    and "sd_maxLinkPaths sd = m_MaxLinkPaths s"
    and "sd_transmitters sd = m_Transmitters s" and "sd_receivers sd = m_Receivers s"
    and "sd_maxNumIa sd = m_MaxNumInteractions s"
  using assms unfolding ToSionnaPathData_def Let_def
  by (auto simp: ReservePaths_def split: option.splits)

lemma export_run_inv:
  assumes cinv: "counts_inv s"
    and small: "length (m_TxIDs s) < 2 ^ 32"
    and nowrap: "\<forall>c. length (m_Transmitters s) * unat (m_MaxLinkPaths s c) \<le> 2 ^ 32"
    and export: "ToSionnaPathData s = Some (sd, s')"
  shows "sionna_inv s (length (m_TxIDs s)) (s', sd_paths sd)"
proof -
  from small have "length (m_TxIDs s) mod 2 ^ 32 = length (m_TxIDs s)" by simp
  with ToSionnaPathData_Some(1)[OF export]
  have loop: "for_each [0..<length (m_TxIDs s)] sionna_path
           (s, sd_paths (ReservePaths
             \<lparr>sd_transmitters = m_Transmitters s, sd_receivers = m_Receivers s,
              sd_maxNumIa = m_MaxNumInteractions s, sd_maxLinkPaths = m_MaxLinkPaths s,
              sd_paths = (\<lambda>_. ReservePaths_type 0 0 0 0)\<rparr>)) = Some (s', sd_paths sd)"
    by simp
  show ?thesis
    by (rule for_each_upt_invariant[where Inv = "sionna_inv s", OF loop sionna_inv_init[OF cinv]])
       (rule sionna_inv_step[OF _ _ _ cinv small nowrap])
qed

text \<open>
  Whenever the exporter returns, the mask of every class is packed per link and the table of
  counters is back to 0.
\<close>

lemma dense_layout_of_export:
  assumes run: "AddPaths_seq H bs (PathStorage_ctor maxIa txs rxs) = Some s"
    and small: "length (m_TxIDs s) < 2 ^ 32"
    and nowrap: "\<forall>c. length txs * unat (m_MaxLinkPaths s c) \<le> 2 ^ 32"
    and export: "ToSionnaPathData s = Some (sd, s')"
  shows "(\<forall>c tx rx. unat tx < length txs \<longrightarrow> unat rx < length rxs \<longrightarrow>
            link_paths s c tx rx \<le> unat (m_MaxLinkPaths s c) \<and>
            (\<forall>j < unat (m_MaxLinkPaths s c).
               sp_mask (sd_paths sd c) !
                 (unat rx * length txs * unat (m_MaxLinkPaths s c) + unat tx * unat (m_MaxLinkPaths s c) + j) =
               (if j < link_paths s c tx rx then 1 else 0))) \<and>
         (\<forall>c. length (sp_mask (sd_paths sd c)) = length rxs * length txs * unat (m_MaxLinkPaths s c)) \<and>
         (\<forall>l < length (m_PathCounts s'). \<forall>c. (m_PathCounts s' ! l) c = 0)"
proof -
  let ?N = "length (m_TxIDs s)"
  let ?M = "\<lambda>c. unat (m_MaxLinkPaths s c)"
  from AddPaths_seq_frame[OF run] have T: "m_Transmitters s = txs" and R: "m_Receivers s = rxs"
    by (simp_all add: PathStorage_ctor_def)
  from AddPaths_seq_export_inv[OF run export_inv_ctor] have cinv: "counts_inv s"
    unfolding export_inv_def by blast
  from nowrap T have nowrap': "\<forall>c. length (m_Transmitters s) * unat (m_MaxLinkPaths s c) \<le> 2 ^ 32"
    by simp
  from export_run_inv[OF cinv small nowrap' export]
  have lc: "length (m_PathCounts s') = length (m_PathCounts s)"
    and cn: "\<And>l c. l < length (m_PathCounts s) \<Longrightarrow> (m_PathCounts s' ! l) c = of_nat (rem_count s ?N l c)"
    and ml: "\<And>c. length (sp_mask (sd_paths sd c)) = length rxs * length txs * ?M c"
    and mk: "\<And>c l j. j < ?M c \<Longrightarrow> l * ?M c + j < length (sp_mask (sd_paths sd c)) \<Longrightarrow>
        sp_mask (sd_paths sd c) ! (l * ?M c + j) =
          (if rem_count s ?N l c \<le> j \<and> j < link_count s l c then 1 else 0)"
    and bd: "\<And>k. k < ?N \<Longrightarrow> unat (m_TxIDs s ! k) < length txs \<and> unat (m_RxIDs s ! k) < length rxs"
    unfolding sionna_inv_def by (simp_all add: T R)
  have zero: "(m_PathCounts s' ! l) c = 0" if "l < length (m_PathCounts s')" for l c
    using that cn[of l c] lc by (simp add: rem_count_end)
  have layout: "link_paths s c tx rx \<le> ?M c \<and>
      (\<forall>j < ?M c. sp_mask (sd_paths sd c) ! (unat rx * length txs * ?M c + unat tx * ?M c + j) =
         (if j < link_paths s c tx rx then 1 else 0))"
    if tx: "unat tx < length txs" and rx: "unat rx < length rxs" for c tx rx
  proof -
    let ?l = "unat rx * length txs + unat tx"
    from bd have "\<forall>k < ?N. unat (m_TxIDs s ! k) < length (m_Transmitters s)" by (simp add: T)
    from link_count_link_paths[OF this, of tx rx c] tx
    have K: "link_count s ?l c = link_paths s c tx rx" by (simp add: T)
    from tx rx have "?l < length rxs * length txs"
    proof -
      from rx have "Suc (unat rx) \<le> length rxs" by simp
      then have "Suc (unat rx) * length txs \<le> length rxs * length txs" by (rule mult_le_mono1)
      with tx show ?thesis by simp
    qed
    then have lb: "Suc ?l \<le> length rxs * length txs" by simp
    have inb: "?l * ?M c + j < length (sp_mask (sd_paths sd c))" if "j < ?M c" for j
    proof -
      from that have "?l * ?M c + j < Suc ?l * ?M c" by simp
      also from lb have "\<dots> \<le> (length rxs * length txs) * ?M c" by (rule mult_le_mono1)
      finally show ?thesis by (simp add: ml)
    qed
    have le: "link_paths s c tx rx \<le> ?M c"
    proof -
      from cinv have sz: "length (m_PathCounts s) = length (m_Transmitters s) + length (m_Receivers s)"
        unfolding counts_inv_def by blast
      show ?thesis
      proof (cases "?l < length (m_PathCounts s)")
        case True
        with cinv have "(m_PathCounts s ! ?l) c = of_nat (link_count s ?l c)"
          "(m_PathCounts s ! ?l) c \<le> m_MaxLinkPaths s c"
          unfolding counts_inv_def by blast+
        then have "(of_nat (link_count s ?l c) :: u32) \<le> m_MaxLinkPaths s c" by simp
        moreover from link_count_le[of s ?l c] small have "link_count s ?l c < 2 ^ 32" by simp
        ultimately have "link_count s ?l c \<le> ?M c" by (rule of_nat_le_unat)
        with K show ?thesis by simp
      next
        case False
        have "link_count s ?l c = 0"
        proof -
          have "\<not> (path_link s k = ?l \<and> path_class s k = c)" if "k \<in> set [0..<?N]" for k
          proof -
            from that have "k < length (m_TxIDs s)" by simp
            with cinv have "path_link s k < length (m_PathCounts s)"
              unfolding counts_inv_def by blast
            with False show ?thesis by auto
          qed
          then have "filter (\<lambda>k. path_link s k = ?l \<and> path_class s k = c) [0..<?N] = []"
            by (simp add: filter_empty_conv)
          then show ?thesis by (simp add: link_count_def rem_count_def)
        qed
        with K show ?thesis by simp
      qed
    qed
    have "sp_mask (sd_paths sd c) ! (unat rx * length txs * ?M c + unat tx * ?M c + j) =
         (if j < link_paths s c tx rx then 1 else 0)" if j: "j < ?M c" for j
    proof -
      have "unat rx * length txs * ?M c + unat tx * ?M c + j = ?l * ?M c + j"
        by (simp add: algebra_simps)
      with mk[OF j inb[OF j]] K show ?thesis by (simp add: rem_count_end)
    qed
    with le show ?thesis by blast
  qed
  from layout ml zero show ?thesis by blast
qed

subsection \<open>The dense exporter returns\<close>

lemma same_shape_refl: "same_shape P P"
  by (simp add: same_shape_def)

lemma same_shape_trans: "same_shape P Q \<Longrightarrow> same_shape Q R \<Longrightarrow> same_shape P R"
  by (simp add: same_shape_def)

lemma sionna_slot_returns:
  assumes d: "ia < length (m_InteractionData s)"
    and d2: "int ia < int n - 1 \<Longrightarrow> ia + 1 < length (m_InteractionData s)"
    and rows: "\<forall>j < length (m_InteractionData s).
        k < length (interactions (m_InteractionData s ! j)) \<and>
        k < length (normals (m_InteractionData s ! j)) \<and>
        k < length (materials (m_InteractionData s ! j))"
    and idx: "ia * length (m_Receivers s) * length (m_Transmitters s) * M + base < length (sp_interactions P)"
      "ia * length (m_Receivers s) * length (m_Transmitters s) * M + base < length (sp_normals P)"
      "ia * length (m_Receivers s) * length (m_Transmitters s) * M + base < length (sp_materials P)"
      "ia * length (m_Receivers s) * length (m_Transmitters s) * M + base < length (sp_incidentRays P)"
      "ia * length (m_Receivers s) * length (m_Transmitters s) * M + base < length (sp_deflectedRays P)"
  shows "\<exists>P'. sionna_slot s k tx rx n M base ia P = Some P' \<and> same_shape P P'"
proof -
  from d have d1: "ia - 1 < length (m_InteractionData s)" by simp
  from rows d d1 have k0: "k < length (interactions (m_InteractionData s ! ia))"
      "k < length (normals (m_InteractionData s ! ia))"
      "k < length (materials (m_InteractionData s ! ia))"
      "k < length (interactions (m_InteractionData s ! (ia - 1)))" by simp_all
  show ?thesis
  proof (cases "int ia < int n - 1")
    case True
    from d2[OF True] rows have "k < length (interactions (m_InteractionData s ! (ia + 1)))" by simp
    with True d2[OF True] d d1 k0 idx show ?thesis
      unfolding sionna_slot_def Let_def same_shape_def by (simp add: rd_def wr_def)
  next
    case False
    with d d1 k0 idx show ?thesis
      unfolding sionna_slot_def Let_def same_shape_def by (simp add: rd_def wr_def)
  qed
qed

lemma sionna_scalars_returns:
  assumes d: "0 < n \<Longrightarrow> n - 1 < length (m_InteractionData s)"
    and rows: "\<forall>j < length (m_InteractionData s). k < length (interactions (m_InteractionData s ! j))"
    and idx: "pdi < length (sp_timeDelays P)" "pdi < length (sp_totalDistance P)"
      "pdi < length (sp_mask P)" "pdi < length (sp_kTx P)" "pdi < length (sp_kRx P)"
      "pdi < length (sp_aodElevation P)" "pdi < length (sp_aodAzimuth P)"
      "pdi < length (sp_aoaElevation P)" "pdi < length (sp_aoaAzimuth P)"
      "n * length (m_Receivers s) * length (m_Transmitters s) * M + pdi < length (sp_incidentRays P)"
  shows "\<exists>P'. sionna_scalars s k tx rx n delay M pdi P = Some P' \<and> same_shape P P'"
proof (cases "0 < n")
  case True
  from d[OF True] have "0 < length (m_InteractionData s)" by (cases "m_InteractionData s") simp_all
  with rows d[OF True] have "k < length (interactions (m_InteractionData s ! 0))"
    "k < length (interactions (m_InteractionData s ! (n - 1)))" by simp_all
  with True d[OF True] \<open>0 < length (m_InteractionData s)\<close> idx show ?thesis
    unfolding sionna_scalars_def Let_def same_shape_def by (simp add: rd_def wr_def)
next
  case False
  with idx show ?thesis
    unfolding sionna_scalars_def Let_def same_shape_def by (simp add: rd_def wr_def)
qed

lemma for_each_returns:
  assumes "Inv s"
    and "\<And>i t. i \<in> set is \<Longrightarrow> Inv t \<Longrightarrow> \<exists>t'. body i t = Some t' \<and> Inv t'"
  shows "\<exists>s'. for_each is body s = Some s' \<and> Inv s'"
  using assms
proof (induction "is" arbitrary: s)
  case Nil
  then show ?case by simp
next
  case (Cons i "is")
  from Cons.prems(2)[of i s] Cons.prems(1) obtain t where t: "body i s = Some t" "Inv t" by auto
  have "\<exists>s'. for_each is body t = Some s' \<and> Inv s'"
    by (rule Cons.IH[OF t(2)]) (rule Cons.prems(2), simp_all)
  with t(1) show ?case by simp
qed

lemma for_each_upt_returns:
  assumes "Inv 0 s"
    and "\<And>i t. i < n \<Longrightarrow> Inv i t \<Longrightarrow> \<exists>t'. body i t = Some t' \<and> Inv (Suc i) t'"
  shows "\<exists>s'. for_each [0..<n] body s = Some s' \<and> Inv n s'"
  using assms
proof (induction n)
  case 0
  then show ?case by simp
next
  case (Suc n)
  have "\<exists>t. for_each [0..<n] body s = Some t \<and> Inv n t"
    by (rule Suc.IH[OF Suc.prems(1)]) (rule Suc.prems(2), simp_all)
  then obtain t where t: "for_each [0..<n] body s = Some t" "Inv n t" by blast
  from Suc.prems(2)[of n t] t(2) obtain t' where "body n t = Some t'" "Inv (Suc n) t'" by auto
  with t(1) show ?case by (simp add: for_each_snoc)
qed

lemma sionna_path_intro:
  assumes "k < length (m_PathTypes s)" "k < length (m_TxIDs s)" "k < length (m_RxIDs s)"
    "k < length (m_NumInteractions s)" "k < length (m_TimeDelays s)"
    "unat (m_TxIDs s ! k) < length (m_Transmitters s)"
    "unat (m_RxIDs s ! k) < length (m_Receivers s)"
    "path_link s k < length (m_PathCounts s)"
    "for_each [0..<m_MaxNumInteractions s]
       (sionna_slot s k (m_Transmitters s ! unat (m_TxIDs s ! k)) (m_Receivers s ! unat (m_RxIDs s ! k))
          (m_NumInteractions s ! k) (unat (m_MaxLinkPaths s (path_class s k)))
          (unat (m_RxIDs s ! k) * length (m_Transmitters s) * unat (m_MaxLinkPaths s (path_class s k)) +
           unat (m_TxIDs s ! k * m_MaxLinkPaths s (path_class s k)) + path_slot s k))
       (paths (path_class s k)) = Some P1"
    "sionna_scalars s k (m_Transmitters s ! unat (m_TxIDs s ! k)) (m_Receivers s ! unat (m_RxIDs s ! k))
       (m_NumInteractions s ! k) (m_TimeDelays s ! k) (unat (m_MaxLinkPaths s (path_class s k)))
       (path_write_index s k) P1 = Some P2"
  shows "sionna_path k (s, paths) =
     Some (s\<lparr>m_PathCounts := (m_PathCounts s)[path_link s k :=
            (m_PathCounts s ! path_link s k)(path_class s k :=
               (m_PathCounts s ! path_link s k) (path_class s k) - 1)]\<rparr>,
           paths(path_class s k := P2))"
  using assms
  unfolding sionna_path_def path_class_def path_link_def path_slot_def path_write_index_def Let_def
  by (simp add: rd_def)

lemma slot_index_bound:
  fixes B :: nat
  assumes "ia < n" and "base < B"
  shows "ia * B + base < n * B"
proof -
  from assms(2) have "ia * B + base < Suc ia * B" by simp
  also from assms(1) have "Suc ia * B \<le> n * B" by (intro mult_le_mono1) simp
  finally show ?thesis .
qed

lemma write_index_facts:
  assumes inv: "sionna_inv s0 i (s, paths)"
    and i: "i < length (m_TxIDs s0)"
    and cinv: "counts_inv s0"
    and small: "length (m_TxIDs s0) < 2 ^ 32"
    and nowrap: "\<forall>c. length (m_Transmitters s0) * unat (m_MaxLinkPaths s0 c) \<le> 2 ^ 32"
    and txb: "unat (m_TxIDs s0 ! i) < length (m_Transmitters s0)"
    and rxb: "unat (m_RxIDs s0 ! i) < length (m_Receivers s0)"
  shows "path_write_index s i <
           length (m_Receivers s0) * length (m_Transmitters s0) * unat (m_MaxLinkPaths s0 (path_class s0 i))"
    and "unat (m_RxIDs s ! i) * length (m_Transmitters s) * unat (m_MaxLinkPaths s (path_class s i)) +
         unat (m_TxIDs s ! i * m_MaxLinkPaths s (path_class s i)) + path_slot s i = path_write_index s i"
    and "path_link s i < length (m_PathCounts s)"
proof -
  let ?T = "length (m_Transmitters s0)"
  let ?R = "length (m_Receivers s0)"
  let ?c = "path_class s0 i"
  let ?l = "path_link s0 i"
  let ?M = "unat (m_MaxLinkPaths s0 ?c)"
  let ?r = "rem_count s0 i ?l ?c"
  let ?K = "link_count s0 ?l ?c"
  from inv have fr: "m_TxIDs s = m_TxIDs s0" "m_RxIDs s = m_RxIDs s0" "m_PathTypes s = m_PathTypes s0"
      "m_Transmitters s = m_Transmitters s0" "m_Receivers s = m_Receivers s0"
      "m_MaxLinkPaths s = m_MaxLinkPaths s0"
    and lc: "length (m_PathCounts s) = length (m_PathCounts s0)"
    and cn: "\<And>l c. l < length (m_PathCounts s0) \<Longrightarrow> (m_PathCounts s ! l) c = of_nat (rem_count s0 i l c)"
    unfolding sionna_inv_def by simp_all
  have cls: "path_class s i = ?c" and lnk: "path_link s i = ?l"
    by (simp_all add: path_class_def path_link_def fr)
  from cinv i have lkb: "?l < length (m_PathCounts s0)" unfolding counts_inv_def by blast
  then show "path_link s i < length (m_PathCounts s)" by (simp add: lnk lc)
  from rem_count_Suc[OF i, of ?l ?c] have r: "?r = Suc (rem_count s0 (Suc i) ?l ?c)" by simp
  have rK: "?r \<le> ?K" by (rule rem_count_le)
  from link_count_le[of s0 ?l ?c] small have Ks: "?K < 2 ^ 32" by simp
  from cinv lkb have "(m_PathCounts s0 ! ?l) ?c = of_nat ?K" "(m_PathCounts s0 ! ?l) ?c \<le> m_MaxLinkPaths s0 ?c"
    unfolding counts_inv_def by blast+
  then have "(of_nat ?K :: u32) \<le> m_MaxLinkPaths s0 ?c" by simp
  from of_nat_le_unat[OF this Ks] have KM: "?K \<le> ?M" .
  have dec: "(m_PathCounts s ! ?l) ?c - 1 = of_nat (?r - 1)"
    using cn[OF lkb, of ?c] r by (simp add: of_nat_minus_one)
  from rK Ks r have "?r - 1 < 2 ^ 32" by simp
  then have slot: "path_slot s i = ?r - 1"
    by (simp add: path_slot_def cls lnk dec unat_of_nat_small)
  from r rK KM have slotM: "?r - 1 < ?M" by simp
  then have Mpos: "0 < ?M" by simp
  from txb Mpos have "unat (m_TxIDs s0 ! i) * ?M < ?T * ?M" by simp
  moreover from nowrap have "?T * ?M \<le> 2 ^ 32" by (rule spec)
  ultimately have "unat (m_TxIDs s0 ! i) * unat (m_MaxLinkPaths s0 ?c) < 2 ^ 32"
    by (rule less_le_trans)
  from unat_mult_small[OF this]
  have txo: "unat (m_TxIDs s0 ! i * m_MaxLinkPaths s0 ?c) = unat (m_TxIDs s0 ! i) * ?M" .
  have pdi: "path_write_index s i = ?l * ?M + (?r - 1)"
    by (simp add: path_write_index_def cls fr txo slot path_link_def algebra_simps)
  show "unat (m_RxIDs s ! i) * length (m_Transmitters s) * unat (m_MaxLinkPaths s (path_class s i)) +
         unat (m_TxIDs s ! i * m_MaxLinkPaths s (path_class s i)) + path_slot s i = path_write_index s i"
    by (simp add: path_write_index_def)
  have "?l < ?R * ?T"
  proof -
    from rxb have "Suc (unat (m_RxIDs s0 ! i)) \<le> ?R" by simp
    then have "Suc (unat (m_RxIDs s0 ! i)) * ?T \<le> ?R * ?T" by (rule mult_le_mono1)
    with txb show ?thesis by (simp add: path_link_def)
  qed
  from slot_index_bound[OF this slotM] pdi
  show "path_write_index s i < ?R * ?T * ?M" by simp
qed

lemma sionna_path_returns:
  assumes inv: "sionna_inv s0 i st" and rdy: "export_ready s0 st"
    and i: "i < length (m_TxIDs s0)"
    and cinv: "counts_inv s0" and shp: "shape_inv s0"
    and small: "length (m_TxIDs s0) < 2 ^ 32"
    and nowrap: "\<forall>c. length (m_Transmitters s0) * unat (m_MaxLinkPaths s0 c) \<le> 2 ^ 32"
    and txb: "unat (m_TxIDs s0 ! i) < length (m_Transmitters s0)"
    and rxb: "unat (m_RxIDs s0 ! i) < length (m_Receivers s0)"
    and nb: "m_NumInteractions s0 ! i \<le> m_MaxNumInteractions s0"
  shows "\<exists>st'. sionna_path i st = Some st' \<and> export_ready s0 st'"
proof -
  obtain s paths where st: "st = (s, paths)" by (cases st)
  let ?T = "length (m_Transmitters s0)"
  let ?R = "length (m_Receivers s0)"
  let ?A = "m_MaxNumInteractions s0"
  let ?c = "path_class s0 i"
  let ?M = "unat (m_MaxLinkPaths s0 ?c)"
  let ?B = "?R * ?T * ?M"
  let ?n = "m_NumInteractions s0 ! i"
  let ?pdi = "path_write_index s i"
  from inv st have fr: "m_TxIDs s = m_TxIDs s0" "m_RxIDs s = m_RxIDs s0" "m_PathTypes s = m_PathTypes s0"
      "m_Transmitters s = m_Transmitters s0" "m_Receivers s = m_Receivers s0"
      "m_MaxLinkPaths s = m_MaxLinkPaths s0"
    unfolding sionna_inv_def by simp_all
  from rdy st have fr2: "m_NumInteractions s = m_NumInteractions s0" "m_TimeDelays s = m_TimeDelays s0"
      "m_InteractionData s = m_InteractionData s0" "m_MaxNumInteractions s = m_MaxNumInteractions s0"
    and shape: "\<And>c. same_shape (reserved s0 c) (paths c)"
    unfolding export_ready_def by simp_all
  have cls: "path_class s i = ?c" by (simp add: path_class_def fr)
  from shp have lens: "length (m_RxIDs s0) = length (m_TxIDs s0)" "length (m_PathTypes s0) = length (m_TxIDs s0)"
      "length (m_NumInteractions s0) = length (m_TxIDs s0)" "length (m_TimeDelays s0) = length (m_TxIDs s0)"
      "length (m_InteractionData s0) = ?A"
    and rows: "\<And>j. j < length (m_InteractionData s0) \<Longrightarrow>
        length (interactions (m_InteractionData s0 ! j)) = length (m_TxIDs s0) \<and>
        length (normals (m_InteractionData s0 ! j)) = length (m_TxIDs s0) \<and>
        length (materials (m_InteractionData s0 ! j)) = length (m_TxIDs s0)"
    unfolding shape_inv_def by simp_all
  note wf = write_index_facts[OF inv[unfolded st] i cinv small nowrap txb rxb]
  from wf(1) have pdi: "?pdi < ?B" .
  from shape[of ?c] have ln:
    "length (sp_interactions (paths ?c)) = ?A * ?B" "length (sp_normals (paths ?c)) = ?A * ?B"
    "length (sp_materials (paths ?c)) = ?A * ?B" "length (sp_incidentRays (paths ?c)) = Suc ?A * ?B"
    "length (sp_deflectedRays (paths ?c)) = ?A * ?B"
    "length (sp_timeDelays (paths ?c)) = ?B" "length (sp_totalDistance (paths ?c)) = ?B"
    "length (sp_mask (paths ?c)) = ?B" "length (sp_kTx (paths ?c)) = ?B" "length (sp_kRx (paths ?c)) = ?B"
    "length (sp_aodElevation (paths ?c)) = ?B" "length (sp_aodAzimuth (paths ?c)) = ?B"
    "length (sp_aoaElevation (paths ?c)) = ?B" "length (sp_aoaAzimuth (paths ?c)) = ?B"
    unfolding same_shape_def reserved_def ReservePaths_type_def Let_def
    by (simp_all add: algebra_simps)
  have rows': "\<forall>j < length (m_InteractionData s).
        i < length (interactions (m_InteractionData s ! j)) \<and>
        i < length (normals (m_InteractionData s ! j)) \<and>
        i < length (materials (m_InteractionData s ! j))"
    using rows i by (simp add: fr2)
  \<comment> \<open>the loop over the interaction slots\<close>
  have slot: "\<exists>P'. sionna_slot s i tx rx ?n ?M ?pdi ia P = Some P' \<and> same_shape (paths ?c) P'"
    if ia: "ia \<in> set [0..<?A]" and P: "same_shape (paths ?c) P" for ia P tx rx
  proof -
    from ia have ia': "ia < ?A" by simp
    have idx: "ia * length (m_Receivers s) * length (m_Transmitters s) * ?M + ?pdi < ?A * ?B"
      using slot_index_bound[OF ia' pdi] by (simp add: fr mult.assoc)
    then have idx': "ia * length (m_Receivers s) * length (m_Transmitters s) * ?M + ?pdi < Suc ?A * ?B"
      by simp
    have d: "ia < length (m_InteractionData s)" using ia' lens by (simp add: fr2)
    have d2: "ia + 1 < length (m_InteractionData s)" if "int ia < int ?n - 1"
      using that nb lens by (simp add: fr2)
    from P ln have lnP:
      "length (sp_interactions P) = ?A * ?B" "length (sp_normals P) = ?A * ?B"
      "length (sp_materials P) = ?A * ?B" "length (sp_incidentRays P) = Suc ?A * ?B"
      "length (sp_deflectedRays P) = ?A * ?B"
      unfolding same_shape_def by simp_all
    from sionna_slot_returns[where M = ?M and base = ?pdi and P = P and tx = tx and rx = rx and n = ?n, OF d d2 rows'] idx idx' lnP
    obtain P' where "sionna_slot s i tx rx ?n ?M ?pdi ia P = Some P'" "same_shape P P'" by auto
    with P same_shape_trans show ?thesis by blast
  qed
  from for_each_returns[where Inv = "same_shape (paths ?c)" and body = "sionna_slot s i
        (m_Transmitters s ! unat (m_TxIDs s ! i)) (m_Receivers s ! unat (m_RxIDs s ! i)) ?n ?M ?pdi"
        and s = "paths ?c", OF same_shape_refl slot]
  obtain P1 where P1: "for_each [0..<?A] (sionna_slot s i
        (m_Transmitters s ! unat (m_TxIDs s ! i)) (m_Receivers s ! unat (m_RxIDs s ! i)) ?n ?M ?pdi)
        (paths ?c) = Some P1" and sh1: "same_shape (paths ?c) P1" by blast
  \<comment> \<open>the per-path entries\<close>
  from sh1 ln have ln1: "length (sp_incidentRays P1) = Suc ?A * ?B"
    "length (sp_timeDelays P1) = ?B" "length (sp_totalDistance P1) = ?B"
    "length (sp_mask P1) = ?B" "length (sp_kTx P1) = ?B" "length (sp_kRx P1) = ?B"
    "length (sp_aodElevation P1) = ?B" "length (sp_aodAzimuth P1) = ?B"
    "length (sp_aoaElevation P1) = ?B" "length (sp_aoaAzimuth P1) = ?B"
    unfolding same_shape_def by simp_all
  have nidx: "?n * length (m_Receivers s) * length (m_Transmitters s) * ?M + ?pdi < Suc ?A * ?B"
  proof -
    from nb have "?n < Suc ?A" by simp
    from slot_index_bound[OF this pdi] show ?thesis by (simp add: fr mult.assoc)
  qed
  have dn: "?n - 1 < length (m_InteractionData s)" if "0 < ?n"
    using that nb lens by (simp add: fr2)
  have rows2: "\<forall>j < length (m_InteractionData s). i < length (interactions (m_InteractionData s ! j))"
    using rows' by simp
  from sionna_scalars_returns[where pdi = ?pdi and P = P1 and M = ?M and n = ?n and delay = "m_TimeDelays s ! i"
      and tx = "m_Transmitters s ! unat (m_TxIDs s ! i)" and rx = "m_Receivers s ! unat (m_RxIDs s ! i)", OF dn rows2] pdi nidx ln1
  obtain P2 where P2: "sionna_scalars s i (m_Transmitters s ! unat (m_TxIDs s ! i))
        (m_Receivers s ! unat (m_RxIDs s ! i)) ?n (m_TimeDelays s ! i) ?M ?pdi P1 = Some P2"
    and sh2: "same_shape P1 P2" by auto
  \<comment> \<open>the step\<close>
  have reads: "i < length (m_PathTypes s)" "i < length (m_TxIDs s)" "i < length (m_RxIDs s)"
    "i < length (m_NumInteractions s)" "i < length (m_TimeDelays s)"
    "unat (m_TxIDs s ! i) < length (m_Transmitters s)"
    "unat (m_RxIDs s ! i) < length (m_Receivers s)"
    using i lens txb rxb by (simp_all add: fr fr2)
  have loop: "for_each [0..<m_MaxNumInteractions s]
       (sionna_slot s i (m_Transmitters s ! unat (m_TxIDs s ! i)) (m_Receivers s ! unat (m_RxIDs s ! i))
          (m_NumInteractions s ! i) (unat (m_MaxLinkPaths s (path_class s i)))
          (unat (m_RxIDs s ! i) * length (m_Transmitters s) * unat (m_MaxLinkPaths s (path_class s i)) +
           unat (m_TxIDs s ! i * m_MaxLinkPaths s (path_class s i)) + path_slot s i))
       (paths (path_class s i)) = Some P1"
    using P1 unfolding wf(2) by (simp add: cls fr fr2)
  have scal: "sionna_scalars s i (m_Transmitters s ! unat (m_TxIDs s ! i)) (m_Receivers s ! unat (m_RxIDs s ! i))
       (m_NumInteractions s ! i) (m_TimeDelays s ! i) (unat (m_MaxLinkPaths s (path_class s i)))
       (path_write_index s i) P1 = Some P2"
    using P2 by (simp add: cls fr fr2)
  note step = sionna_path_intro[where paths = paths and s = s and k = i, OF reads wf(3) loop scal]
  have "same_shape (reserved s0 c) ((paths(path_class s i := P2)) c)" for c
  proof (cases "c = ?c")
    case True
    from same_shape_trans[OF same_shape_trans[OF shape[of ?c] sh1] sh2] True show ?thesis
      by (simp add: cls)
  next
    case False
    with shape[of c] show ?thesis by (simp add: cls)
  qed
  then have "export_ready s0 (s\<lparr>m_PathCounts := (m_PathCounts s)[path_link s i :=
            (m_PathCounts s ! path_link s i)(path_class s i :=
               (m_PathCounts s ! path_link s i) (path_class s i) - 1)]\<rparr>,
           paths(path_class s i := P2))"
    unfolding export_ready_def by (simp add: fr2)
  with step show ?thesis unfolding st by blast
qed

lemma export_ready_init:
  "export_ready s (s, sd_paths (ReservePaths
     \<lparr>sd_transmitters = m_Transmitters s, sd_receivers = m_Receivers s,
      sd_maxNumIa = m_MaxNumInteractions s, sd_maxLinkPaths = m_MaxLinkPaths s,
      sd_paths = (\<lambda>_. ReservePaths_type 0 0 0 0)\<rparr>))"
  unfolding export_ready_def reserved_def by (simp add: ReservePaths_def same_shape_refl)

lemma ToSionnaPathData_returns:
  assumes shp: "shape_inv s" and cinv: "counts_inv s"
    and small: "length (m_TxIDs s) < 2 ^ 32"
    and nowrap: "\<forall>c. length (m_Transmitters s) * unat (m_MaxLinkPaths s c) \<le> 2 ^ 32"
    and inrange: "\<forall>i < length (m_TxIDs s).
        unat (m_TxIDs s ! i) < length (m_Transmitters s) \<and>
        unat (m_RxIDs s ! i) < length (m_Receivers s) \<and>
        m_NumInteractions s ! i \<le> m_MaxNumInteractions s"
  shows "\<exists>sd s'. ToSionnaPathData s = Some (sd, s')"
proof -
  let ?init = "(s, sd_paths (ReservePaths
     \<lparr>sd_transmitters = m_Transmitters s, sd_receivers = m_Receivers s,
      sd_maxNumIa = m_MaxNumInteractions s, sd_maxLinkPaths = m_MaxLinkPaths s,
      sd_paths = (\<lambda>_. ReservePaths_type 0 0 0 0)\<rparr>))"
  let ?Inv = "\<lambda>i st. sionna_inv s i st \<and> export_ready s st"
  have init: "?Inv 0 ?init"
    using sionna_inv_init[OF cinv] export_ready_init by blast
  have step: "\<exists>t'. sionna_path i t = Some t' \<and> ?Inv (Suc i) t'"
    if i: "i < length (m_TxIDs s)" and inv: "?Inv i t" for i t
  proof -
    from inv have si: "sionna_inv s i t" and er: "export_ready s t" by blast+
    from inrange i have b: "unat (m_TxIDs s ! i) < length (m_Transmitters s)"
      "unat (m_RxIDs s ! i) < length (m_Receivers s)"
      "m_NumInteractions s ! i \<le> m_MaxNumInteractions s" by blast+
    from sionna_path_returns[OF si er i cinv shp small nowrap b]
    obtain t' where t': "sionna_path i t = Some t'" "export_ready s t'" by blast
    from sionna_inv_step[OF t'(1) si i cinv small nowrap] t' show ?thesis by blast
  qed
  from for_each_upt_returns[where Inv = ?Inv and body = sionna_path and n = "length (m_TxIDs s)"
      and s = ?init, OF init step]
  obtain st where st: "for_each [0..<length (m_TxIDs s)] sionna_path ?init = Some st" by blast
  obtain s' paths where sp: "st = (s', paths)" by (cases st)
  from small have "length (m_TxIDs s) mod 2 ^ 32 = length (m_TxIDs s)" by simp
  with st sp show ?thesis unfolding ToSionnaPathData_def Let_def by simp
qed

text \<open>
  C3, as amended. On a store built by \<open>AddPaths\<close> whose paths name a transmitter and a
  receiver of the storage and have at most \<open>maxNumInteractions\<close> interactions,
  \<open>ToSionnaPathData\<close> returns, and after the run, for every class and every link
  (transmitter, receiver), with \<open>K\<close> the number of retained paths of that link and class:
  \<open>K\<close> is at most \<open>maxLinkPaths\<close> of the class, the \<open>K\<close> lowest link-local slots
  \<open>0, \<dots>, K - 1\<close> of the link's part of the mask hold 1 and its other slots
  \<open>K, \<dots>, maxLinkPaths - 1\<close> hold 0 (the counter is decremented before it is used, so the
  paths are packed from slot \<open>K - 1\<close> down to slot 0), and every counter of the table is 0.
  The arithmetic of the source is 32-bit: fewer than \<open>2 ^ 32\<close> paths are retained, and the
  product of the transmitter count and \<open>maxLinkPaths\<close> does not wrap.
\<close>

theorem ToSionnaPathData_dense_layout:
  assumes run: "AddPaths_seq H bs (PathStorage_ctor maxIa txs rxs) = Some s"
    and small: "length (m_TxIDs s) < 2 ^ 32"
    and nowrap: "\<forall>c. length txs * unat (m_MaxLinkPaths s c) \<le> 2 ^ 32"
    and inrange: "\<forall>i < length (m_TxIDs s).
        unat (m_TxIDs s ! i) < length txs \<and> unat (m_RxIDs s ! i) < length rxs \<and>
        m_NumInteractions s ! i \<le> maxIa"
  shows "\<exists>sd s'. ToSionnaPathData s = Some (sd, s') \<and>
         (\<forall>c tx rx. unat tx < length txs \<longrightarrow> unat rx < length rxs \<longrightarrow>
            link_paths s c tx rx \<le> unat (m_MaxLinkPaths s c) \<and>
            (\<forall>j < unat (m_MaxLinkPaths s c).
               sp_mask (sd_paths sd c) !
                 (unat rx * length txs * unat (m_MaxLinkPaths s c) + unat tx * unat (m_MaxLinkPaths s c) + j) =
               (if j < link_paths s c tx rx then 1 else 0))) \<and>
         (\<forall>c. length (sp_mask (sd_paths sd c)) = length rxs * length txs * unat (m_MaxLinkPaths s c)) \<and>
         (\<forall>l < length (m_PathCounts s'). \<forall>c. (m_PathCounts s' ! l) c = 0)"
proof -
  from AddPaths_seq_frame[OF run] have T: "m_Transmitters s = txs" and R: "m_Receivers s = rxs"
    and A: "m_MaxNumInteractions s = maxIa"
    by (simp_all add: PathStorage_ctor_def)
  from AddPaths_seq_export_inv[OF run export_inv_ctor] have shp: "shape_inv s" and cinv: "counts_inv s"
    unfolding export_inv_def by blast+
  from nowrap T have nowrap': "\<forall>c. length (m_Transmitters s) * unat (m_MaxLinkPaths s c) \<le> 2 ^ 32"
    by simp
  from inrange T R A have inrange': "\<forall>i < length (m_TxIDs s).
        unat (m_TxIDs s ! i) < length (m_Transmitters s) \<and>
        unat (m_RxIDs s ! i) < length (m_Receivers s) \<and>
        m_NumInteractions s ! i \<le> m_MaxNumInteractions s"
    by simp
  from ToSionnaPathData_returns[OF shp cinv small nowrap' inrange']
  obtain sd s' where export: "ToSionnaPathData s = Some (sd, s')" by blast
  from export dense_layout_of_export[OF run small nowrap export] show ?thesis by blast
qed

lemma dense_store_run:
  "AddPaths_seq example_hasher [dense_batch] (PathStorage_ctor 1 [(0, 0, 0)] [(4, 0, 0), (0, 4, 0)])
     = Some dense_store"
  by (simp add: dense_store_def dense_batch_def eval_defs)

lemma dense_store_eval:
  "m_NumInteractions dense_store = [1, 1, 0]" "m_TxIDs dense_store = [0, 0, 0]"
  "m_RxIDs dense_store = [0, 0, 1]"
  "m_PathTypes dense_store = [Specular, Specular, LineOfSight]"
  "m_Transmitters dense_store = [(0, 0, 0)]"
  "m_Receivers dense_store = [(4, 0, 0), (0, 4, 0)]"
  "m_MaxLinkPaths dense_store Sionna_Specular = 2"
  "m_MaxLinkPaths dense_store Sionna_Diffracted = 0"
  "m_MaxLinkPaths dense_store Sionna_Scattered = 0"
  "m_MaxLinkPaths dense_store Sionna_RIS = 0"
  "m_MaxNumInteractions dense_store = 1"
  "m_TimeDelays dense_store = [3, 4, 1]"
  "m_InteractionData dense_store = [\<lparr>interactions = [(1, 1, 0), (2, 1, 0), (0, 0, 0)],
      normals = [(0, 0, 1), (0, 0, 1), (0, 0, 0)],
      labels = [5, 6, NOT 0], materials = [7, 7, NOT 0]\<rparr>]"
  "m_PathCounts dense_store =
     [(\<lambda>_. 0)(Sionna_Specular := 2), (\<lambda>_. 0)(Sionna_Specular := 1), \<lambda>_. 0]"
  by (simp_all add: dense_store_def dense_batch_def eval_defs)

lemma dense_export: "ToSionnaPathData dense_store \<noteq> None"
  by (simp add: sionna_eval_defs dense_store_eval rd_def wr_def Let_def for_each_upt)

theorem ToSionnaPathData_dense_layout_witness:
  "ToSionnaPathData dense_store \<noteq> None \<and>
   m_TxIDs dense_store = [0, 0, 0] \<and> m_RxIDs dense_store = [0, 0, 1] \<and>
   m_NumInteractions dense_store = [1, 1, 0] \<and>
   (\<forall>c. length [(0, 0, 0) :: vec3] * unat (m_MaxLinkPaths dense_store c) \<le> 2 ^ 32) \<and>
   unat (m_MaxLinkPaths dense_store Sionna_Specular) = 2 \<and>
   link_paths dense_store Sionna_Specular 0 0 = 2 \<and>
   link_paths dense_store Sionna_Specular 0 1 = 1 \<and>
   length (sp_mask (sd_paths (fst (the (ToSionnaPathData dense_store))) Sionna_Specular)) = 4 \<and>
   sp_mask (sd_paths (fst (the (ToSionnaPathData dense_store))) Sionna_Specular) ! 0 = 1 \<and>
   sp_mask (sd_paths (fst (the (ToSionnaPathData dense_store))) Sionna_Specular) ! 1 = 1 \<and>
   sp_mask (sd_paths (fst (the (ToSionnaPathData dense_store))) Sionna_Specular) ! 2 = 1 \<and>
   sp_mask (sd_paths (fst (the (ToSionnaPathData dense_store))) Sionna_Specular) ! 3 = 0 \<and>
   length (m_PathCounts (snd (the (ToSionnaPathData dense_store)))) = 3 \<and>
   (m_PathCounts (snd (the (ToSionnaPathData dense_store))) ! 0) Sionna_Specular = 0 \<and>
   (m_PathCounts (snd (the (ToSionnaPathData dense_store))) ! 1) Sionna_Specular = 0"
proof -
  let ?sd = "fst (the (ToSionnaPathData dense_store))"
  let ?s' = "snd (the (ToSionnaPathData dense_store))"
  let ?m = "sp_mask (sd_paths ?sd Sionna_Specular)"
  have small: "length (m_TxIDs dense_store) < 2 ^ 32" by (simp add: dense_store_eval)
  have nowrap: "\<forall>c. length [(0, 0, 0) :: vec3] * unat (m_MaxLinkPaths dense_store c) \<le> 2 ^ 32"
  proof
    fix c
    have "unat (m_MaxLinkPaths dense_store c) < 2 ^ 32" using unsigned_less[of "m_MaxLinkPaths dense_store c"]
      by simp
    then show "length [(0, 0, 0) :: vec3] * unat (m_MaxLinkPaths dense_store c) \<le> 2 ^ 32" by simp
  qed
  have inrange: "\<forall>i < length (m_TxIDs dense_store).
        unat (m_TxIDs dense_store ! i) < length [(0, 0, 0) :: vec3] \<and>
        unat (m_RxIDs dense_store ! i) < length [(4, 0, 0), (0, 4, 0) :: vec3] \<and>
        m_NumInteractions dense_store ! i \<le> 1"
    by (simp add: dense_store_eval nth_Cons' All_less_Suc numeral_3_eq_3)
  have ids: "m_TxIDs dense_store = [0, 0, 0]" "m_RxIDs dense_store = [0, 0, 1]"
    "m_NumInteractions dense_store = [1, 1, 0]"
    by (simp_all add: dense_store_eval)
  have M: "unat (m_MaxLinkPaths dense_store Sionna_Specular) = 2" by (simp add: dense_store_eval)
  have K0: "link_paths dense_store Sionna_Specular 0 0 = 2"
    and K1: "link_paths dense_store Sionna_Specular 0 1 = 1"
    by (simp_all add: link_paths_def dense_store_eval upt_conv_Cons)
  from ToSionnaPathData_dense_layout[OF dense_store_run small nowrap inrange]
  obtain sd s' where export: "ToSionnaPathData dense_store = Some (sd, s')"
    and lay: "\<And>c tx rx j. unat tx < length [(0, 0, 0) :: vec3] \<Longrightarrow>
            unat rx < length [(4, 0, 0), (0, 4, 0) :: vec3] \<Longrightarrow> j < unat (m_MaxLinkPaths dense_store c) \<Longrightarrow>
               sp_mask (sd_paths sd c) !
                 (unat rx * length [(0, 0, 0) :: vec3] * unat (m_MaxLinkPaths dense_store c) +
                  unat tx * unat (m_MaxLinkPaths dense_store c) + j) =
               (if j < link_paths dense_store c tx rx then 1 else 0)"
    and ml: "\<And>c. length (sp_mask (sd_paths sd c)) =
               length [(4, 0, 0), (0, 4, 0) :: vec3] * length [(0, 0, 0) :: vec3] * unat (m_MaxLinkPaths dense_store c)"
    and zero: "\<And>l c. l < length (m_PathCounts s') \<Longrightarrow> (m_PathCounts s' ! l) c = 0"
    by blast
  from export have sd: "?sd = sd" and s': "?s' = s'" and some: "ToSionnaPathData dense_store \<noteq> None"
    by simp_all
  have len: "length (m_PathCounts ?s') = 3"
    by (simp add: sionna_eval_defs dense_store_eval rd_def wr_def Let_def for_each_upt)
  from ml[where c = Sionna_Specular] M have l4: "length ?m = 4" by (simp add: sd)
  from lay[where tx = 0 and rx = 0 and c = Sionna_Specular and j = 0] M K0 have m0: "?m ! 0 = 1"
    by (simp add: sd)
  from lay[where tx = 0 and rx = 0 and c = Sionna_Specular and j = 1] M K0 have m1: "?m ! 1 = 1"
    by (simp add: sd)
  from lay[where tx = 0 and rx = 1 and c = Sionna_Specular and j = 0] M K1 have m2: "?m ! 2 = 1"
    by (simp add: sd)
  from lay[where tx = 0 and rx = 1 and c = Sionna_Specular and j = 1] M K1 have m3: "?m ! 3 = 0"
    by (simp add: sd)
  from len s' have in_table: "0 < length (m_PathCounts s')" "1 < length (m_PathCounts s')"
    by simp_all
  from zero[OF in_table(1), where c = Sionna_Specular] zero[OF in_table(2), where c = Sionna_Specular]
  have z: "(m_PathCounts ?s' ! 0) Sionna_Specular = 0" "(m_PathCounts ?s' ! 1) Sionna_Specular = 0"
    by (simp_all add: s')
  from some ids nowrap M K0 K1 l4 m0 m1 m2 m3 len z show ?thesis by blast
qed

text \<open>
  The slots that hold 1 are not the top slots of the link's part when \<open>K < maxLinkPaths\<close>:
  in \<open>dense_store\<close> the class has \<open>maxLinkPaths = 2\<close> and the link of transmitter 0 and
  receiver 1 has \<open>K = 1\<close>; its top slot, slot 1, holds 0 and its slot 0 holds 1.
\<close>

theorem ToSionnaPathData_top_slots_counterexample:
  "ToSionnaPathData dense_store \<noteq> None \<and>
   unat (m_MaxLinkPaths dense_store Sionna_Specular) = 2 \<and>
   link_paths dense_store Sionna_Specular 0 1 = 1 \<and>
   sp_mask (sd_paths (fst (the (ToSionnaPathData dense_store))) Sionna_Specular) !
     (1 * length (m_Transmitters dense_store) * 2 + 0 * 2 + 1) = 0 \<and>
   sp_mask (sd_paths (fst (the (ToSionnaPathData dense_store))) Sionna_Specular) !
     (1 * length (m_Transmitters dense_store) * 2 + 0 * 2 + 0) = 1"
proof -
  have K: "link_paths dense_store Sionna_Specular 0 1 = 1"
    by (simp add: link_paths_def dense_store_eval upt_conv_Cons)
  have M: "unat (m_MaxLinkPaths dense_store Sionna_Specular) = 2" by (simp add: dense_store_eval)
  have m: "sp_mask (sd_paths (fst (the (ToSionnaPathData dense_store))) Sionna_Specular) = [1, 1, 1, 0]"
    by (simp add: sionna_eval_defs dense_store_eval rd_def wr_def Let_def for_each_upt
        replicate_numeral)
  from dense_export K M show ?thesis by (simp add: m dense_store_eval)
qed

section \<open>Line-of-sight paths in the dense output\<close>

lemma rem_count_antitone:
  assumes "a \<le> b"
  shows "rem_count s b l c \<le> rem_count s a l c"
proof (cases "b \<le> length (m_TxIDs s)")
  case True
  with assms have "[a..<length (m_TxIDs s)] = [a..<b] @ [b..<length (m_TxIDs s)]"
    by (metis le_Suc_ex upt_add_eq_append)
  then show ?thesis by (simp add: rem_count_def)
next
  case False
  then show ?thesis by (simp add: rem_count_def)
qed

lemma export_slot_bound:
  assumes cinv: "counts_inv s" and small: "length (m_TxIDs s) < 2 ^ 32"
    and k: "k < length (m_TxIDs s)"
  shows "0 < rem_count s k (path_link s k) (path_class s k)"
    and "rem_count s k (path_link s k) (path_class s k) - 1 < unat (m_MaxLinkPaths s (path_class s k))"
proof -
  let ?l = "path_link s k" and ?c = "path_class s k"
  from rem_count_Suc[OF k, of ?l ?c] show pos: "0 < rem_count s k ?l ?c" by simp
  from cinv k have lkb: "?l < length (m_PathCounts s)" unfolding counts_inv_def by blast
  from link_count_le[of s ?l ?c] small have Ks: "link_count s ?l ?c < 2 ^ 32" by simp
  from cinv lkb have "(m_PathCounts s ! ?l) ?c = of_nat (link_count s ?l ?c)"
    "(m_PathCounts s ! ?l) ?c \<le> m_MaxLinkPaths s ?c"
    unfolding counts_inv_def by blast+
  then have "(of_nat (link_count s ?l ?c) :: u32) \<le> m_MaxLinkPaths s ?c" by simp
  from of_nat_le_unat[OF this Ks] have "link_count s ?l ?c \<le> unat (m_MaxLinkPaths s ?c)" .
  with rem_count_le[of s k ?l ?c] pos
  show "rem_count s k ?l ?c - 1 < unat (m_MaxLinkPaths s ?c)" by simp
qed

lemma export_index_bound:
  assumes cinv: "counts_inv s" and small: "length (m_TxIDs s) < 2 ^ 32"
    and k: "k < length (m_TxIDs s)"
    and txb: "unat (m_TxIDs s ! k) < length (m_Transmitters s)"
    and rxb: "unat (m_RxIDs s ! k) < length (m_Receivers s)"
  shows "export_index s k <
           length (m_Receivers s) * length (m_Transmitters s) * unat (m_MaxLinkPaths s (path_class s k))"
proof -
  have "path_link s k < length (m_Receivers s) * length (m_Transmitters s)"
  proof -
    from rxb have "Suc (unat (m_RxIDs s ! k)) \<le> length (m_Receivers s)" by simp
    then have "Suc (unat (m_RxIDs s ! k)) * length (m_Transmitters s) \<le>
        length (m_Receivers s) * length (m_Transmitters s)" by (rule mult_le_mono1)
    with txb show ?thesis by (simp add: path_link_def)
  qed
  from slot_index_bound[OF this export_slot_bound(2)[OF cinv small k]]
  show ?thesis by (simp add: export_index_def)
qed

lemma export_index_inj:
  assumes cinv: "counts_inv s" and small: "length (m_TxIDs s) < 2 ^ 32"
    and ki: "k < i" and i: "i < length (m_TxIDs s)"
    and cls: "path_class s k = path_class s i"
  shows "export_index s k \<noteq> export_index s i"
proof -
  let ?c = "path_class s i"
  let ?M = "unat (m_MaxLinkPaths s ?c)"
  from ki i have k: "k < length (m_TxIDs s)" by simp
  note bk = export_slot_bound[OF cinv small k, unfolded cls]
  note bi = export_slot_bound[OF cinv small i]
  show ?thesis
  proof (cases "path_link s k = path_link s i")
    case True
    from rem_count_Suc[OF k, of "path_link s i" ?c] True cls
    have "rem_count s k (path_link s i) ?c = Suc (rem_count s (Suc k) (path_link s i) ?c)" by simp
    moreover from ki have "rem_count s i (path_link s i) ?c \<le> rem_count s (Suc k) (path_link s i) ?c"
      by (intro rem_count_antitone) simp
    ultimately have "rem_count s i (path_link s i) ?c < rem_count s k (path_link s i) ?c" by simp
    with bi(1) show ?thesis by (simp add: export_index_def True cls)
  next
    case False
    with index_unique[OF bk(2) bi(2), of "path_link s k" "path_link s i"]
    show ?thesis by (simp add: export_index_def cls)
  qed
qed

lemma write_index_static:
  assumes inv: "sionna_inv s0 i (s, paths)"
    and i: "i < length (m_TxIDs s0)"
    and cinv: "counts_inv s0"
    and small: "length (m_TxIDs s0) < 2 ^ 32"
    and nowrap: "\<forall>c. length (m_Transmitters s0) * unat (m_MaxLinkPaths s0 c) \<le> 2 ^ 32"
    and txb: "unat (m_TxIDs s0 ! i) < length (m_Transmitters s0)"
  shows "path_write_index s i = export_index s0 i"
proof -
  let ?T = "length (m_Transmitters s0)"
  let ?c = "path_class s0 i"
  let ?l = "path_link s0 i"
  let ?M = "unat (m_MaxLinkPaths s0 ?c)"
  let ?r = "rem_count s0 i ?l ?c"
  from inv have fr: "m_TxIDs s = m_TxIDs s0" "m_RxIDs s = m_RxIDs s0" "m_PathTypes s = m_PathTypes s0"
      "m_Transmitters s = m_Transmitters s0" "m_Receivers s = m_Receivers s0"
      "m_MaxLinkPaths s = m_MaxLinkPaths s0"
    and cn: "\<And>l c. l < length (m_PathCounts s0) \<Longrightarrow> (m_PathCounts s ! l) c = of_nat (rem_count s0 i l c)"
    unfolding sionna_inv_def by simp_all
  have cls: "path_class s i = ?c" and lnk: "path_link s i = ?l"
    by (simp_all add: path_class_def path_link_def fr)
  from cinv i have lkb: "?l < length (m_PathCounts s0)" unfolding counts_inv_def by blast
  note sb = export_slot_bound[OF cinv small i]
  have dec: "(m_PathCounts s ! ?l) ?c - 1 = of_nat (?r - 1)"
    unfolding cn[OF lkb, of ?c] by (rule of_nat_minus_one[OF sb(1)])
  from rem_count_le[of s0 i ?l ?c] link_count_le[of s0 ?l ?c] small have "?r - 1 < 2 ^ 32" by simp
  then have slot: "path_slot s i = ?r - 1"
    by (simp add: path_slot_def cls lnk dec unat_of_nat_small)
  from sb(2) have Mpos: "0 < ?M" by simp
  from txb Mpos have "unat (m_TxIDs s0 ! i) * ?M < ?T * ?M" by simp
  moreover from nowrap have "?T * ?M \<le> 2 ^ 32" by (rule spec)
  ultimately have "unat (m_TxIDs s0 ! i) * unat (m_MaxLinkPaths s0 ?c) < 2 ^ 32"
    by (rule less_le_trans)
  from unat_mult_small[OF this]
  have txo: "unat (m_TxIDs s0 ! i * m_MaxLinkPaths s0 ?c) = unat (m_TxIDs s0 ! i) * ?M" .
  show ?thesis
    by (simp add: path_write_index_def export_index_def cls fr txo slot path_link_def algebra_simps)
qed

lemma sionna_slot_frame:
  assumes "sionna_slot s k tx rx n M base ia P = Some P'"
  shows "sp_kTx P' = sp_kTx P" and "sp_kRx P' = sp_kRx P"
    and "j \<noteq> ia * length (m_Receivers s) * length (m_Transmitters s) * M + base \<Longrightarrow>
         sp_incidentRays P' ! j = sp_incidentRays P ! j"
  using assms unfolding sionna_slot_def Let_def Option.bind_eq_Some_conv wr_Some_iff
  by auto

lemma sionna_slots_frame:
  assumes "for_each is (sionna_slot s k tx rx n M base) P = Some P'"
  shows "sp_kTx P' = sp_kTx P \<and> sp_kRx P' = sp_kRx P \<and>
         (\<forall>j. (\<forall>ia. j \<noteq> ia * length (m_Receivers s) * length (m_Transmitters s) * M + base) \<longrightarrow>
              sp_incidentRays P' ! j = sp_incidentRays P ! j)"
  using assms
proof (rule for_each_invariant[where P = "\<lambda>Q. sp_kTx Q = sp_kTx P \<and> sp_kRx Q = sp_kRx P \<and>
         (\<forall>j. (\<forall>ia. j \<noteq> ia * length (m_Receivers s) * length (m_Transmitters s) * M + base) \<longrightarrow>
              sp_incidentRays Q ! j = sp_incidentRays P ! j)"])
  show "sp_kTx P = sp_kTx P \<and> sp_kRx P = sp_kRx P \<and>
         (\<forall>j. (\<forall>ia. j \<noteq> ia * length (m_Receivers s) * length (m_Transmitters s) * M + base) \<longrightarrow>
              sp_incidentRays P ! j = sp_incidentRays P ! j)" by simp
next
  fix ia Q Q'
  assume st: "sionna_slot s k tx rx n M base ia Q = Some Q'"
    and Q: "sp_kTx Q = sp_kTx P \<and> sp_kRx Q = sp_kRx P \<and>
         (\<forall>j. (\<forall>ia. j \<noteq> ia * length (m_Receivers s) * length (m_Transmitters s) * M + base) \<longrightarrow>
              sp_incidentRays Q ! j = sp_incidentRays P ! j)"
  from sionna_slot_frame[OF st] Q
  show "sp_kTx Q' = sp_kTx P \<and> sp_kRx Q' = sp_kRx P \<and>
         (\<forall>j. (\<forall>ia. j \<noteq> ia * length (m_Receivers s) * length (m_Transmitters s) * M + base) \<longrightarrow>
              sp_incidentRays Q' ! j = sp_incidentRays P ! j)" by simp
qed

lemma sionna_scalars_frame:
  assumes "sionna_scalars s k tx rx n delay M pdi P = Some P'"
  shows "j \<noteq> pdi \<Longrightarrow> sp_kTx P' ! j = sp_kTx P ! j"
    and "j \<noteq> pdi \<Longrightarrow> sp_kRx P' ! j = sp_kRx P ! j"
    and "j \<noteq> n * length (m_Receivers s) * length (m_Transmitters s) * M + pdi \<Longrightarrow>
         sp_incidentRays P' ! j = sp_incidentRays P ! j"
  using assms unfolding sionna_scalars_def Let_def Option.bind_eq_Some_conv wr_Some_iff
  by auto

lemma los_inv_step:
  assumes step: "sionna_path i st = Some st'"
    and inv: "sionna_inv s0 i st" and rdy: "export_ready s0 st" and J: "los_inv s0 i st"
    and i: "i < length (m_TxIDs s0)"
    and cinv: "counts_inv s0"
    and small: "length (m_TxIDs s0) < 2 ^ 32"
    and nowrap: "\<forall>c. length (m_Transmitters s0) * unat (m_MaxLinkPaths s0 c) \<le> 2 ^ 32"
  shows "los_inv s0 (Suc i) st'"
proof -
  obtain s paths where st: "st = (s, paths)" by (cases st)
  obtain s' paths' where st': "st' = (s', paths')" by (cases st')
  let ?T = "length (m_Transmitters s0)"
  let ?R = "length (m_Receivers s0)"
  let ?c = "path_class s0 i"
  let ?M = "unat (m_MaxLinkPaths s0 ?c)"
  let ?B = "?R * ?T * ?M"
  let ?E = "export_index s0"
  let ?tx = "\<lambda>k. m_Transmitters s0 ! unat (m_TxIDs s0 ! k)"
  let ?rx = "\<lambda>k. m_Receivers s0 ! unat (m_RxIDs s0 ! k)"
  from inv st have fr: "m_TxIDs s = m_TxIDs s0" "m_RxIDs s = m_RxIDs s0" "m_PathTypes s = m_PathTypes s0"
      "m_Transmitters s = m_Transmitters s0" "m_Receivers s = m_Receivers s0"
      "m_MaxLinkPaths s = m_MaxLinkPaths s0"
    and bd: "\<And>k. k < i \<Longrightarrow> unat (m_TxIDs s0 ! k) < ?T \<and> unat (m_RxIDs s0 ! k) < ?R"
    unfolding sionna_inv_def by simp_all
  have cls: "path_class s i = ?c" by (simp add: path_class_def fr)
  from step[unfolded st st'] obtain P1 P2 where
    tx: "unat (m_TxIDs s ! i) < length (m_Transmitters s)" and
    rx: "unat (m_RxIDs s ! i) < length (m_Receivers s)" and
    lp: "for_each [0..<m_MaxNumInteractions s]
       (sionna_slot s i (m_Transmitters s ! unat (m_TxIDs s ! i)) (m_Receivers s ! unat (m_RxIDs s ! i))
          (m_NumInteractions s ! i) (unat (m_MaxLinkPaths s (path_class s i)))
          (unat (m_RxIDs s ! i) * length (m_Transmitters s) * unat (m_MaxLinkPaths s (path_class s i)) +
           unat (m_TxIDs s ! i * m_MaxLinkPaths s (path_class s i)) + path_slot s i))
       (paths (path_class s i)) = Some P1" and
    sc: "sionna_scalars s i (m_Transmitters s ! unat (m_TxIDs s ! i)) (m_Receivers s ! unat (m_RxIDs s ! i))
       (m_NumInteractions s ! i) (m_TimeDelays s ! i) (unat (m_MaxLinkPaths s (path_class s i)))
       (path_write_index s i) P1 = Some P2" and
    p': "paths' = paths(path_class s i := P2)"
    by (rule sionna_path_Some)
  from tx rx have txb: "unat (m_TxIDs s0 ! i) < ?T" and rxb: "unat (m_RxIDs s0 ! i) < ?R"
    by (simp_all add: fr)
  have W: "path_write_index s i = ?E i"
    by (rule write_index_static[OF inv[unfolded st] i cinv small nowrap txb])
  have base: "unat (m_RxIDs s ! i) * length (m_Transmitters s) * unat (m_MaxLinkPaths s (path_class s i)) +
           unat (m_TxIDs s ! i * m_MaxLinkPaths s (path_class s i)) + path_slot s i = ?E i"
    unfolding W[symmetric] by (simp add: path_write_index_def)
  have Ei: "?E i < ?B" by (rule export_index_bound[OF cinv small i txb rxb])
  \<comment> \<open>what the step leaves as it was\<close>
  from sionna_slots_frame[OF lp[unfolded base]]
  have k1: "sp_kTx P1 = sp_kTx (paths ?c)" "sp_kRx P1 = sp_kRx (paths ?c)"
    and i1: "\<And>j. (\<forall>ia. j \<noteq> ia * ?R * ?T * ?M + ?E i) \<Longrightarrow>
              sp_incidentRays P1 ! j = sp_incidentRays (paths ?c) ! j"
    by (simp_all add: cls fr)
  note f2 = sionna_scalars_frame[OF sc[unfolded W]]
  have keep: "sp_kTx P2 ! j = sp_kTx (paths ?c) ! j \<and> sp_kRx P2 ! j = sp_kRx (paths ?c) ! j \<and>
      sp_incidentRays P2 ! j = sp_incidentRays (paths ?c) ! j"
    if ne: "\<forall>ia. j \<noteq> ia * ?R * ?T * ?M + ?E i" for j
  proof -
    from ne[rule_format, of 0] have j: "j \<noteq> ?E i" by simp
    from ne[rule_format, of "m_NumInteractions s ! i"]
    have jn: "j \<noteq> m_NumInteractions s ! i * length (m_Receivers s) * length (m_Transmitters s) *
        unat (m_MaxLinkPaths s (path_class s i)) + ?E i"
      by (simp add: cls fr)
    from f2(1)[OF j] f2(2)[OF j] f2(3)[OF jn] k1 i1[OF ne] show ?thesis by simp
  qed
  have goal: "sp_kTx (paths' (path_class s0 k)) ! ?E k = glm_normalize (vsub (?rx k) (?tx k)) \<and>
        sp_kRx (paths' (path_class s0 k)) ! ?E k = glm_normalize (vsub (?tx k) (?rx k)) \<and>
        sp_incidentRays (paths' (path_class s0 k)) ! ?E k = vneg (glm_normalize (vsub (?tx k) (?rx k)))"
    if k: "k < Suc i" and los: "m_NumInteractions s0 ! k = 0" for k
  proof (cases "k = i")
    case True
    from rdy st have "m_NumInteractions s = m_NumInteractions s0"
      unfolding export_ready_def by simp
    with los True have los': "m_NumInteractions s ! i = 0" by simp
    from line_of_sight_step[OF step[unfolded st st'] los'] show ?thesis
      by (simp add: True W cls fr)
  next
    case False
    with k have ki: "k < i" by simp
    from J[unfolded los_inv_def st] ki los
    have old: "sp_kTx (paths (path_class s0 k)) ! ?E k = glm_normalize (vsub (?rx k) (?tx k)) \<and>
        sp_kRx (paths (path_class s0 k)) ! ?E k = glm_normalize (vsub (?tx k) (?rx k)) \<and>
        sp_incidentRays (paths (path_class s0 k)) ! ?E k = vneg (glm_normalize (vsub (?tx k) (?rx k)))"
      by simp
    show ?thesis
    proof (cases "path_class s0 k = ?c")
      case False
      with old show ?thesis by (simp add: p' cls)
    next
      case True
      from ki i have kN: "k < length (m_TxIDs s0)" by simp
      from bd[OF ki] have "?E k < ?R * ?T * unat (m_MaxLinkPaths s0 (path_class s0 k))"
        by (intro export_index_bound[OF cinv small kN]) simp_all
      with True have Ek: "?E k < ?B" by simp
      from export_index_inj[OF cinv small ki i True] have ne: "?E k \<noteq> ?E i" .
      have "\<forall>ia. ?E k \<noteq> ia * ?R * ?T * ?M + ?E i"
      proof
        fix ia
        from index_unique[OF Ek Ei, of 0 ia] ne have "0 * ?B + ?E k \<noteq> ia * ?B + ?E i" by simp
        then show "?E k \<noteq> ia * ?R * ?T * ?M + ?E i" by (simp add: mult.assoc)
      qed
      from keep[OF this] old True show ?thesis by (simp add: p' cls)
    qed
  qed
  then show ?thesis unfolding los_inv_def st' by simp
qed

lemma ToSionnaPathData_run:
  assumes shp: "shape_inv s" and cinv: "counts_inv s"
    and small: "length (m_TxIDs s) < 2 ^ 32"
    and nowrap: "\<forall>c. length (m_Transmitters s) * unat (m_MaxLinkPaths s c) \<le> 2 ^ 32"
    and inrange: "\<forall>i < length (m_TxIDs s).
        unat (m_TxIDs s ! i) < length (m_Transmitters s) \<and>
        unat (m_RxIDs s ! i) < length (m_Receivers s) \<and>
        m_NumInteractions s ! i \<le> m_MaxNumInteractions s"
  shows "\<exists>sd s'. ToSionnaPathData s = Some (sd, s') \<and> los_inv s (length (m_TxIDs s)) (s', sd_paths sd)"
proof -
  let ?init = "(s, sd_paths (ReservePaths
     \<lparr>sd_transmitters = m_Transmitters s, sd_receivers = m_Receivers s,
      sd_maxNumIa = m_MaxNumInteractions s, sd_maxLinkPaths = m_MaxLinkPaths s,
      sd_paths = (\<lambda>_. ReservePaths_type 0 0 0 0)\<rparr>))"
  let ?Inv = "\<lambda>i st. sionna_inv s i st \<and> export_ready s st \<and> los_inv s i st"
  have "los_inv s 0 ?init" by (simp add: los_inv_def)
  with sionna_inv_init[OF cinv] export_ready_init have init: "?Inv 0 ?init" by blast
  have step: "\<exists>t'. sionna_path i t = Some t' \<and> ?Inv (Suc i) t'"
    if i: "i < length (m_TxIDs s)" and inv: "?Inv i t" for i t
  proof -
    from inv have si: "sionna_inv s i t" and er: "export_ready s t" and li: "los_inv s i t" by blast+
    from inrange i have b: "unat (m_TxIDs s ! i) < length (m_Transmitters s)"
      "unat (m_RxIDs s ! i) < length (m_Receivers s)"
      "m_NumInteractions s ! i \<le> m_MaxNumInteractions s" by blast+
    from sionna_path_returns[OF si er i cinv shp small nowrap b]
    obtain t' where t': "sionna_path i t = Some t'" "export_ready s t'" by blast
    from sionna_inv_step[OF t'(1) si i cinv small nowrap]
      los_inv_step[OF t'(1) si er li i cinv small nowrap] t' show ?thesis by blast
  qed
  from for_each_upt_returns[where Inv = ?Inv and body = sionna_path and n = "length (m_TxIDs s)"
      and s = ?init, OF init step]
  obtain st where st: "for_each [0..<length (m_TxIDs s)] sionna_path ?init = Some st"
    and fin: "los_inv s (length (m_TxIDs s)) st" by blast
  obtain s' paths where sp: "st = (s', paths)" by (cases st)
  from small have "length (m_TxIDs s) mod 2 ^ 32 = length (m_TxIDs s)" by simp
  with st sp have "ToSionnaPathData s = Some (ReservePaths
     \<lparr>sd_transmitters = m_Transmitters s, sd_receivers = m_Receivers s,
      sd_maxNumIa = m_MaxNumInteractions s, sd_maxLinkPaths = m_MaxLinkPaths s,
      sd_paths = (\<lambda>_. ReservePaths_type 0 0 0 0)\<rparr>\<lparr>sd_paths := paths\<rparr>, s')"
    unfolding ToSionnaPathData_def Let_def by simp
  moreover from fin sp have "los_inv s (length (m_TxIDs s)) (s', sd_paths (ReservePaths
     \<lparr>sd_transmitters = m_Transmitters s, sd_receivers = m_Receivers s,
      sd_maxNumIa = m_MaxNumInteractions s, sd_maxLinkPaths = m_MaxLinkPaths s,
      sd_paths = (\<lambda>_. ReservePaths_type 0 0 0 0)\<rparr>\<lparr>sd_paths := paths\<rparr>))"
    by simp
  ultimately show ?thesis by blast
qed

text \<open>
  C7: on a store built by \<open>AddPaths\<close> whose paths name a transmitter and a receiver of the
  storage and have at most \<open>maxNumInteractions\<close> interactions, \<open>ToSionnaPathData\<close> returns,
  and for every retained path with no interaction its output holds, in the arrays of the
  path's class, \<open>kTx = normalize(rx - tx)\<close> and \<open>kRx = normalize(tx - rx)\<close> at the path's
  per-path write index, and the incident ray toward the receiver, \<open>- kRx\<close>, at interaction
  slot 0 of the incident-ray buffer (offset \<open>0 * numReceivers * numTransmitters *
  maxLinkPaths\<close>, at the same write index): no later path overwrites these entries.
\<close>

theorem line_of_sight_vectors:
  assumes run: "AddPaths_seq H bs (PathStorage_ctor maxIa txs rxs) = Some s"
    and small: "length (m_TxIDs s) < 2 ^ 32"
    and nowrap: "\<forall>c. length txs * unat (m_MaxLinkPaths s c) \<le> 2 ^ 32"
    and inrange: "\<forall>i < length (m_TxIDs s).
        unat (m_TxIDs s ! i) < length txs \<and> unat (m_RxIDs s ! i) < length rxs \<and>
        m_NumInteractions s ! i \<le> maxIa"
    and k: "k < length (m_TxIDs s)" and los: "m_NumInteractions s ! k = 0"
  shows "\<exists>sd s'. ToSionnaPathData s = Some (sd, s') \<and>
         sp_kTx (sd_paths sd (path_class s k)) ! export_index s k =
           glm_normalize (vsub (rxs ! unat (m_RxIDs s ! k)) (txs ! unat (m_TxIDs s ! k))) \<and>
         sp_kRx (sd_paths sd (path_class s k)) ! export_index s k =
           glm_normalize (vsub (txs ! unat (m_TxIDs s ! k)) (rxs ! unat (m_RxIDs s ! k))) \<and>
         sp_incidentRays (sd_paths sd (path_class s k)) !
             (0 * length rxs * length txs * unat (m_MaxLinkPaths s (path_class s k)) + export_index s k) =
           vneg (sp_kRx (sd_paths sd (path_class s k)) ! export_index s k)"
proof -
  from AddPaths_seq_frame[OF run] have T: "m_Transmitters s = txs" and R: "m_Receivers s = rxs"
    and A: "m_MaxNumInteractions s = maxIa"
    by (simp_all add: PathStorage_ctor_def)
  from AddPaths_seq_export_inv[OF run export_inv_ctor] have shp: "shape_inv s" and cinv: "counts_inv s"
    unfolding export_inv_def by blast+
  from nowrap T have nowrap': "\<forall>c. length (m_Transmitters s) * unat (m_MaxLinkPaths s c) \<le> 2 ^ 32"
    by simp
  from inrange T R A have inrange': "\<forall>i < length (m_TxIDs s).
        unat (m_TxIDs s ! i) < length (m_Transmitters s) \<and>
        unat (m_RxIDs s ! i) < length (m_Receivers s) \<and>
        m_NumInteractions s ! i \<le> m_MaxNumInteractions s"
    by simp
  from ToSionnaPathData_run[OF shp cinv small nowrap' inrange']
  obtain sd s' where export: "ToSionnaPathData s = Some (sd, s')"
    and fin: "los_inv s (length (m_TxIDs s)) (s', sd_paths sd)" by blast
  from fin k los have
    "sp_kTx (sd_paths sd (path_class s k)) ! export_index s k =
       glm_normalize (vsub (rxs ! unat (m_RxIDs s ! k)) (txs ! unat (m_TxIDs s ! k)))"
    "sp_kRx (sd_paths sd (path_class s k)) ! export_index s k =
       glm_normalize (vsub (txs ! unat (m_TxIDs s ! k)) (rxs ! unat (m_RxIDs s ! k)))"
    "sp_incidentRays (sd_paths sd (path_class s k)) ! export_index s k =
       vneg (glm_normalize (vsub (txs ! unat (m_TxIDs s ! k)) (rxs ! unat (m_RxIDs s ! k))))"
    unfolding los_inv_def by (simp_all add: T R)
  with export show ?thesis by simp
qed

lemma los_store_run:
  "AddPaths_seq example_hasher [los_batch] (PathStorage_ctor 1 [(0, 0, 0)] [(4, 0, 0)]) = Some los_store"
  by (simp add: los_store_def los_batch_def eval_defs)

theorem line_of_sight_vectors_witness:
  "ToSionnaPathData los_store \<noteq> None \<and>
   m_NumInteractions los_store = [0] \<and> m_TxIDs los_store = [0] \<and> m_RxIDs los_store = [0] \<and>
   path_class los_store 0 = Sionna_Specular \<and>
   export_index los_store 0 = 0 \<and>
   sp_kTx (sd_paths (fst (the (ToSionnaPathData los_store))) Sionna_Specular) ! 0 =
     glm_normalize (vsub (4, 0, 0) (0, 0, 0)) \<and>
   sp_kRx (sd_paths (fst (the (ToSionnaPathData los_store))) Sionna_Specular) ! 0 =
     glm_normalize (vsub (0, 0, 0) (4, 0, 0)) \<and>
   sp_incidentRays (sd_paths (fst (the (ToSionnaPathData los_store))) Sionna_Specular) ! 0 =
     vneg (sp_kRx (sd_paths (fst (the (ToSionnaPathData los_store))) Sionna_Specular) ! 0)"
proof -
  let ?sd = "fst (the (ToSionnaPathData los_store))"
  have small: "length (m_TxIDs los_store) < 2 ^ 32" by (simp add: los_store_eval)
  have nowrap: "\<forall>c. length [(0, 0, 0) :: vec3] * unat (m_MaxLinkPaths los_store c) \<le> 2 ^ 32"
  proof
    fix c
    have "unat (m_MaxLinkPaths los_store c) < 2 ^ 32" using unsigned_less[of "m_MaxLinkPaths los_store c"]
      by simp
    then show "length [(0, 0, 0) :: vec3] * unat (m_MaxLinkPaths los_store c) \<le> 2 ^ 32" by simp
  qed
  have inrange: "\<forall>i < length (m_TxIDs los_store).
        unat (m_TxIDs los_store ! i) < length [(0, 0, 0) :: vec3] \<and>
        unat (m_RxIDs los_store ! i) < length [(4, 0, 0) :: vec3] \<and>
        m_NumInteractions los_store ! i \<le> 1"
    by (simp add: los_store_eval)
  have k: "0 < length (m_TxIDs los_store)" and los: "m_NumInteractions los_store ! 0 = 0"
    by (simp_all add: los_store_eval)
  have ids: "m_NumInteractions los_store = [0]" "m_TxIDs los_store = [0]" "m_RxIDs los_store = [0]"
    by (simp_all add: los_store_eval)
  have cls: "path_class los_store 0 = Sionna_Specular" by (simp add: path_class_def los_store_eval)
  have idx: "export_index los_store 0 = 0"
    by (simp add: export_index_def rem_count_def path_link_def path_class_def los_store_eval)
  from line_of_sight_vectors[OF los_store_run small nowrap inrange k los]
  obtain sd s' where export: "ToSionnaPathData los_store = Some (sd, s')"
    and v: "sp_kTx (sd_paths sd Sionna_Specular) ! 0 = glm_normalize (vsub (4, 0, 0) (0, 0, 0))"
      "sp_kRx (sd_paths sd Sionna_Specular) ! 0 = glm_normalize (vsub (0, 0, 0) (4, 0, 0))"
      "sp_incidentRays (sd_paths sd Sionna_Specular) ! 0 = vneg (sp_kRx (sd_paths sd Sionna_Specular) ! 0)"
    unfolding cls idx by (auto simp: los_store_eval)
  from export have sd: "?sd = sd" and some: "ToSionnaPathData los_store \<noteq> None" by simp_all
  from some ids cls idx v show ?thesis unfolding sd by simp
qed

section \<open>The aggregation returns on well-formed batches\<close>

lemma GetPathHash_returns:
  assumes "di + numInteractions pinfo \<le> length lbls"
  shows "\<exists>h. GetPathHash H pinfo lbls di = Some h"
proof -
  have "\<exists>h'. for_each [0..<numInteractions pinfo]
       (\<lambda>i h. do { l \<leftarrow> rd lbls (di + i); Some (CombineHash H h l) })
       (CalculateHash H (txID pinfo) (rxID pinfo) (pathType pinfo)) = Some h' \<and> True"
  proof (rule for_each_returns)
    fix i t
    assume "i \<in> set [0..<numInteractions pinfo]"
    with assms have "di + i < length lbls" by simp
    then show "\<exists>t'. do { l \<leftarrow> rd lbls (di + i); Some (CombineHash H t l) } = Some t' \<and> True"
      by (simp add: rd_def)
  qed simp
  then show ?thesis unfolding GetPathHash_def by blast
qed

lemma append_slot_returns:
  assumes "ia < length d"
    and "ia < numInteractions pinfo \<Longrightarrow>
         di + ia < length (in_interactions b) \<and> di + ia < length (in_normals b) \<and>
         di + ia < length (in_labels b) \<and> di + ia < length (in_materials b)"
  shows "\<exists>d'. append_slot b pinfo di ia d = Some d' \<and> length d' = length d"
  using assms unfolding append_slot_def by (simp add: rd_def wr_def)

lemma overwrite_slot_returns:
  assumes "ia < length d"
    and "di + ia < length (in_interactions b)" "di + ia < length (in_normals b)"
    and "di + ia < length (in_labels b)" "di + ia < length (in_materials b)"
    and "\<forall>j < length d. p < length (interactions (d ! j)) \<and> p < length (normals (d ! j)) \<and>
           p < length (labels (d ! j)) \<and> p < length (materials (d ! j))"
  shows "\<exists>d'. overwrite_slot b di p ia d = Some d' \<and> length d' = length d \<and>
           (\<forall>j < length d'. p < length (interactions (d' ! j)) \<and> p < length (normals (d' ! j)) \<and>
              p < length (labels (d' ! j)) \<and> p < length (materials (d' ! j)))"
  using assms unfolding overwrite_slot_def by (simp add: rd_def wr_def nth_list_update)

lemma AddPath_frame:
  assumes "AddPath H b i s = Some s'"
  shows "m_Transmitters s' = m_Transmitters s" "m_Receivers s' = m_Receivers s"
    "m_MaxNumInteractions s' = m_MaxNumInteractions s"
proof -
  have "m_Transmitters s' = m_Transmitters s \<and> m_Receivers s' = m_Receivers s \<and>
        m_MaxNumInteractions s' = m_MaxNumInteractions s"
    using assms
  proof (cases rule: AddPath_cases)
    case (inserted h)
    from insert_path_Some(11,12,13)[OF inserted(4)] show ?thesis by simp
  next
    case (updated h e)
    from update_path_Some(12,13,14)[OF updated(5)] show ?thesis by simp
  next
    case (discarded h e)
    then show ?thesis by simp
  qed
  then show "m_Transmitters s' = m_Transmitters s" "m_Receivers s' = m_Receivers s"
    "m_MaxNumInteractions s' = m_MaxNumInteractions s" by simp_all
qed

lemma AddPath_returns:
  assumes shp: "shape_inv s"
    and sz: "length (m_PathCounts s) = length (m_Transmitters s) + length (m_Receivers s)"
    and ok: "batch_ok (m_MaxNumInteractions s) (length (m_Transmitters s)) (length (m_Receivers s)) b"
    and i: "i < numPaths b"
  shows "\<exists>s'. AddPath H b i s = Some s'"
proof -
  let ?A = "m_MaxNumInteractions s"
  let ?p = "pathInfos b ! i"
  let ?di = "i * length (m_InteractionData s)"
  let ?N = "length (m_TxIDs s)"
  from shp have dlen: "length (m_InteractionData s) = ?A"
    and lens: "length (m_TimeDelays s) = ?N" "length (m_NumInteractions s) = ?N"
      "length (m_PathMap s) = ?N"
    and rows: "\<And>ia. ia < length (m_InteractionData s) \<Longrightarrow>
        length (interactions (m_InteractionData s ! ia)) = ?N \<and>
        length (normals (m_InteractionData s ! ia)) = ?N \<and>
        length (labels (m_InteractionData s ! ia)) = ?N \<and>
        length (materials (m_InteractionData s ! ia)) = ?N"
    and idx: "\<And>j. j < length (m_PathMap s) \<Longrightarrow> entry_pathIndex (snd (m_PathMap s ! j)) = of_nat j"
    unfolding shape_inv_def by simp_all
  from ok i have pi: "i < length (pathInfos b)"
    and n: "numInteractions ?p \<le> ?A"
    and link: "unat (rxID ?p) * length (m_Transmitters s) + unat (txID ?p) < length (m_PathCounts s)"
    and sizes: "numPaths b * ?A \<le> length (in_interactions b)" "numPaths b * ?A \<le> length (in_normals b)"
      "numPaths b * ?A \<le> length (in_labels b)" "numPaths b * ?A \<le> length (in_materials b)"
    unfolding batch_ok_def by (simp_all add: sz)
  have inb: "?di + ia < numPaths b * ?A" if "ia < ?A" for ia
    using slot_index_bound[OF i that] by (simp add: dlen)
  have rdb: "?di + ia < length (in_interactions b) \<and> ?di + ia < length (in_normals b) \<and>
      ?di + ia < length (in_labels b) \<and> ?di + ia < length (in_materials b)" if "ia < ?A" for ia
    using inb[OF that] sizes by simp
  have "?di + numInteractions ?p \<le> length (in_labels b)"
  proof (cases "numInteractions ?p")
    case 0
    from i have "i \<le> numPaths b" by simp
    then have "i * ?A \<le> numPaths b * ?A" by (rule mult_le_mono1)
    from this sizes(3) have "i * ?A \<le> length (in_labels b)" by (rule le_trans)
    with 0 show ?thesis by (simp add: dlen)
  next
    case (Suc m)
    with n have "m < ?A" by simp
    from inb[OF this] Suc sizes(3) show ?thesis by simp
  qed
  from GetPathHash_returns[OF this]
  obtain h where h: "GetPathHash H ?p (in_labels b) ?di = Some h" by blast
  show ?thesis
  proof (cases "map_of (m_PathMap s) h")
    case None
    have "\<exists>d. for_each [0..<length (m_InteractionData s)] (append_slot b ?p ?di) (m_InteractionData s) = Some d
        \<and> length d = length (m_InteractionData s)"
    proof (rule for_each_returns)
      fix ia and d :: "InteractionData list"
      assume ia: "ia \<in> set [0..<length (m_InteractionData s)]"
        and d: "length d = length (m_InteractionData s)"
      from ia d have "ia < length d" by simp
      moreover from ia have "ia < ?A" by (simp add: dlen)
      ultimately have "\<exists>d'. append_slot b ?p ?di ia d = Some d' \<and> length d' = length d"
        using rdb by (intro append_slot_returns) simp_all
      with d show "\<exists>d'. append_slot b ?p ?di ia d = Some d' \<and> length d' = length (m_InteractionData s)"
        by simp
    qed simp
    then obtain d where "for_each [0..<length (m_InteractionData s)] (append_slot b ?p ?di) (m_InteractionData s) = Some d"
      by blast
    with link have "\<exists>s'. insert_path b ?p ?di h s = Some s'"
      unfolding insert_path_def Let_def by (simp add: rd_def)
    with pi h None show ?thesis unfolding AddPath_def Let_def by (simp add: rd_def)
  next
    case (Some e)
    show ?thesis
    proof (cases "timeDelay ?p < entry_timeDelay e")
      case False
      with pi h Some show ?thesis unfolding AddPath_def Let_def by (simp add: rd_def)
    next
      case True
      let ?q = "unat (entry_pathIndex e)"
      from map_of_SomeD[OF Some] obtain j where j: "j < length (m_PathMap s)" "m_PathMap s ! j = (h, e)"
        by (auto simp: in_set_conv_nth)
      from idx[OF j(1)] j(2) have "entry_pathIndex e = of_nat j" by simp
      then have "?q \<le> j" by (simp add: unat_of_nat)
      with j(1) lens have q: "?q < ?N" by simp
      let ?Inv = "\<lambda>d. length d = ?A \<and> (\<forall>j < length d. ?q < length (interactions (d ! j)) \<and>
          ?q < length (normals (d ! j)) \<and> ?q < length (labels (d ! j)) \<and> ?q < length (materials (d ! j)))"
      have "\<exists>d. for_each [0..<numInteractions ?p] (overwrite_slot b ?di ?q) (m_InteractionData s) = Some d
          \<and> ?Inv d"
      proof (rule for_each_returns[where Inv = ?Inv])
        from rows q dlen show "?Inv (m_InteractionData s)" by simp
      next
        fix ia and d :: "InteractionData list"
        assume ia: "ia \<in> set [0..<numInteractions ?p]" and d: "?Inv d"
        from ia n have iaA: "ia < ?A" by simp
        with d have "ia < length d" by simp
        from overwrite_slot_returns[OF this, of ?di b ?q] rdb[OF iaA] d
        show "\<exists>d'. overwrite_slot b ?di ?q ia d = Some d' \<and> ?Inv d'" by auto
      qed
      then obtain d where "for_each [0..<numInteractions ?p] (overwrite_slot b ?di ?q) (m_InteractionData s) = Some d"
        by blast
      with q lens have "\<exists>s'. update_path b ?p ?di h e s = Some s'"
        unfolding update_path_def by (simp add: wr_def)
      with pi h Some True show ?thesis unfolding AddPath_def Let_def by (simp add: rd_def)
    qed
  qed
qed

lemma AddPaths_returns:
  assumes inv: "export_inv s"
    and ok: "batch_ok (m_MaxNumInteractions s) (length (m_Transmitters s)) (length (m_Receivers s)) b"
  shows "\<exists>s'. AddPaths H b s = Some s'"
proof -
  let ?Inv = "\<lambda>t. export_inv t \<and> m_Transmitters t = m_Transmitters s \<and>
      m_Receivers t = m_Receivers s \<and> m_MaxNumInteractions t = m_MaxNumInteractions s"
  have "\<exists>s'. for_each [0..<numPaths b] (AddPath H b) s = Some s' \<and> ?Inv s'"
  proof (rule for_each_returns[where Inv = ?Inv])
    from inv show "?Inv s" by simp
  next
    fix i t
    assume i: "i \<in> set [0..<numPaths b]" and t: "?Inv t"
    from t have shp: "shape_inv t" and cinv: "counts_inv t" unfolding export_inv_def by blast+
    from cinv have sz: "length (m_PathCounts t) = length (m_Transmitters t) + length (m_Receivers t)"
      unfolding counts_inv_def by blast
    from ok t have ok': "batch_ok (m_MaxNumInteractions t) (length (m_Transmitters t)) (length (m_Receivers t)) b"
      by simp
    from i have "i < numPaths b" by simp
    from AddPath_returns[OF shp sz ok' this]
    obtain t' where t': "AddPath H b i t = Some t'" by blast
    from AddPath_export_inv[OF t'] AddPath_frame[OF t'] t have "?Inv t'" by simp
    with t' show "\<exists>t'. AddPath H b i t = Some t' \<and> ?Inv t'" by blast
  qed
  then show ?thesis unfolding AddPaths_def by blast
qed

lemma AddPaths_seq_returns:
  assumes "export_inv s"
    and "\<forall>b \<in> set bs. batch_ok (m_MaxNumInteractions s) (length (m_Transmitters s)) (length (m_Receivers s)) b"
  shows "\<exists>s'. AddPaths_seq H bs s = Some s'"
  using assms
proof (induction bs arbitrary: s)
  case Nil
  then show ?case by simp
next
  case (Cons b bs)
  from Cons.prems(2) have ok: "batch_ok (m_MaxNumInteractions s) (length (m_Transmitters s)) (length (m_Receivers s)) b"
    by simp
  from AddPaths_returns[OF Cons.prems(1) ok] obtain t where t: "AddPaths H b s = Some t" by blast
  from AddPaths_seq_frame[of H "[b]" s t] t
  have fr: "m_Transmitters t = m_Transmitters s" "m_Receivers t = m_Receivers s"
    "m_MaxNumInteractions t = m_MaxNumInteractions s" by simp_all
  from Cons.prems(2) fr have oks: "\<forall>b \<in> set bs. batch_ok (m_MaxNumInteractions t)
      (length (m_Transmitters t)) (length (m_Receivers t)) b" by simp
  from Cons.IH[OF AddPaths_export_inv[OF t Cons.prems(1)] oks] t show ?case by simp
qed

lemma AddPaths_seq_ctor_returns:
  assumes "\<forall>b \<in> set bs. batch_ok maxIa (length txs) (length rxs) b"
  shows "\<exists>s. AddPaths_seq H bs (PathStorage_ctor maxIa txs rxs) = Some s"
  using AddPaths_seq_returns[OF export_inv_ctor, of bs maxIa txs rxs H] assms
  by (simp add: PathStorage_ctor_def)

section \<open>Initialisation of the point-cloud environment\<close>

text \<open>
  C9: \<open>Init\<close> returns false when the input has at most one point, when the voxel size is
  0, and when a computed voxel dimension is 0; in these cases it returns before
  \<open>LinkPointNodes\<close> and \<open>GenerateRayTracingData\<close>: the device state, \<open>m_IeCount\<close> and
  \<open>m_PointCount\<close> are as before the call.
\<close>

theorem Init_fails_on_degenerate_input:
  assumes "length points \<le> 1 \<or> voxelSize = 0 \<or>
           (case voxel_dimensions ext (m_Aabb (snd (LoadPoints ext points s))) voxelSize of
              (x, y, z) \<Rightarrow> x = 0 \<or> y = 0 \<or> z = 0)"
  shows "\<exists>s'. Init ext points voxelSize aabbBias s = Some (False, s') \<and>
              m_Device s' = m_Device s \<and> m_IeCount s' = m_IeCount s \<and>
              m_PointCount s' = m_PointCount s"
proof (cases "length points \<le> 1")
  case True
  then show ?thesis by (simp add: Init_def)
next
  case False
  obtain pointNodes s1 where lp: "LoadPoints ext points s = (pointNodes, s1)"
    by (cases "LoadPoints ext points s")
  obtain ok s2 where cv: "ComputeVoxelWorld ext voxelSize s1 = (ok, s2)"
    by (cases "ComputeVoxelWorld ext voxelSize s1")
  obtain x y z where d: "voxel_dimensions ext (m_Aabb s1) voxelSize = (x, y, z)"
    by (cases "voxel_dimensions ext (m_Aabb s1) voxelSize")
  from assms False lp d have "voxelSize = 0 \<or> x = 0 \<or> y = 0 \<or> z = 0" by simp
  with cv d have "\<not> ok" by (auto simp: ComputeVoxelWorld_def Let_def)
  moreover from lp have "m_Device s1 = m_Device s" "m_IeCount s1 = m_IeCount s" "m_PointCount s1 = m_PointCount s"
    by (auto simp: LoadPoints_def Let_def split: prod.splits)
  moreover from cv have "m_Device s2 = m_Device s1" "m_IeCount s2 = m_IeCount s1" "m_PointCount s2 = m_PointCount s1"
    by (auto simp: ComputeVoxelWorld_def Let_def)
  ultimately show ?thesis using False lp cv by (simp add: Init_def)
qed

lemma example_dimensions:
  "voxel_dimensions example_externals
     (m_Aabb (snd (LoadPoints example_externals example_points (PointCloudEnvironment_ctor 0)))) (- 1)
   = (0, 0, 0)"
  by (simp add: voxel_dimensions_def LoadPoints_def load_point_def example_points_def
      example_externals_def vmin_def vmax_def vadd_scalar_def vsub_def Let_def)

theorem Init_fails_on_degenerate_input_witness:
  "length [hd example_points] \<le> 1 \<and>
   Init example_externals [hd example_points] 1 0 (PointCloudEnvironment_ctor 0) \<noteq> None \<and>
   \<not> fst (the (Init example_externals [hd example_points] 1 0 (PointCloudEnvironment_ctor 0))) \<and>
   m_Device (snd (the (Init example_externals [hd example_points] 1 0 (PointCloudEnvironment_ctor 0)))) = 0 \<and>
   length example_points = 2 \<and>
   Init example_externals example_points 0 0 (PointCloudEnvironment_ctor 0) \<noteq> None \<and>
   \<not> fst (the (Init example_externals example_points 0 0 (PointCloudEnvironment_ctor 0))) \<and>
   m_Device (snd (the (Init example_externals example_points 0 0 (PointCloudEnvironment_ctor 0)))) = 0 \<and>
   voxel_dimensions example_externals
     (m_Aabb (snd (LoadPoints example_externals example_points (PointCloudEnvironment_ctor 0)))) (- 1)
     = (0, 0, 0) \<and>
   Init example_externals example_points (- 1) 0 (PointCloudEnvironment_ctor 0) \<noteq> None \<and>
   \<not> fst (the (Init example_externals example_points (- 1) 0 (PointCloudEnvironment_ctor 0))) \<and>
   m_Device (snd (the (Init example_externals example_points (- 1) 0 (PointCloudEnvironment_ctor 0)))) = 0"
proof -
  let ?s = "PointCloudEnvironment_ctor 0 :: nat PointCloudEnvironment"
  have d0: "m_Device ?s = 0" by (simp add: PointCloudEnvironment_ctor_def)
  have r: "r \<noteq> None \<and> \<not> fst (the r) \<and> m_Device (snd (the r)) = 0"
    if "\<exists>s'. r = Some (False, s') \<and> m_Device s' = m_Device ?s \<and> m_IeCount s' = m_IeCount ?s \<and>
              m_PointCount s' = m_PointCount ?s" for r
    using that d0 by auto
  have a: "length [hd example_points] \<le> 1" by simp
  have b: "length example_points = 2" by (simp add: example_points_def)
  note c = example_dimensions
  have 1: "length [hd example_points] \<le> 1 \<or> (1 :: real) = 0 \<or>
           (case voxel_dimensions example_externals
                   (m_Aabb (snd (LoadPoints example_externals [hd example_points] ?s))) 1 of
              (x, y, z) \<Rightarrow> x = 0 \<or> y = 0 \<or> z = 0)" by simp
  have 2: "length example_points \<le> 1 \<or> (0 :: real) = 0 \<or>
           (case voxel_dimensions example_externals
                   (m_Aabb (snd (LoadPoints example_externals example_points ?s))) 0 of
              (x, y, z) \<Rightarrow> x = 0 \<or> y = 0 \<or> z = 0)" by simp
  have 3: "length example_points \<le> 1 \<or> (- 1 :: real) = 0 \<or>
           (case voxel_dimensions example_externals
                   (m_Aabb (snd (LoadPoints example_externals example_points ?s))) (- 1) of
              (x, y, z) \<Rightarrow> x = 0 \<or> y = 0 \<or> z = 0)" by (simp add: c)
  from r[OF Init_fails_on_degenerate_input[OF 1, of 0]]
       r[OF Init_fails_on_degenerate_input[OF 2, of 0]]
       r[OF Init_fails_on_degenerate_input[OF 3, of 0]] a b c
  show ?thesis by simp
qed

text \<open>With a positive voxel size the same points pass all stages.\<close>

lemma Init_example_success:
  "Init example_externals example_points 1 0 (PointCloudEnvironment_ctor 0) \<noteq> None \<and>
   fst (the (Init example_externals example_points 1 0 (PointCloudEnvironment_ctor 0))) \<and>
   m_Device (snd (the (Init example_externals example_points 1 0 (PointCloudEnvironment_ctor 0)))) = 1"
  by (simp add: Init_def LoadPoints_def load_point_def ComputeVoxelWorld_def voxel_dimensions_def
      LinkPointNodes_def link_point_def GenerateRayTracingData_def example_points_def
      example_externals_def PointCloudEnvironment_ctor_def vmin_def vmax_def vadd_scalar_def
      vsub_def Let_def rd_def for_each_upt)

end
